theory Spec2Isabelle
  imports Main "HOL-Library.AList" "HOL-Library.Multiset"
begin

section \<open>The CIDLC package generator: data model\<close>

text \<open>
  The generator (\<^verbatim>\<open>PackGenerator\<close>) turns the members of an IDL package into TypeScript
  declarations. The Go type system (\<^verbatim>\<open>go/types\<close>) and the package model (\<^verbatim>\<open>Package\<close>,
  \<^verbatim>\<open>Member\<close>, \<^verbatim>\<open>PropertyOptions\<close>) are declared outside the generator's file; they are
  given here as datatypes with exactly the parts the generator reads.
\<close>

subsection \<open>Failures\<close>

text \<open>
  Every way the generator stops early is a value of \<open>error\<close>:
  \<^item> \<open>AssertFailed\<close>: \<^verbatim>\<open>contract.Assert(cond)\<close> with a false condition;
  \<^item> \<open>Failf fmt args\<close>: \<^verbatim>\<open>contract.Failf(fmt, args...)\<close>, with the \<^verbatim>\<open>%v\<close> text of each operand;
  \<^item> \<open>TypeAssertion\<close>: a failed single-value type assertion \<^verbatim>\<open>x.(*T)\<close>;
  \<^item> \<open>IndexOutOfRange\<close>: \<^verbatim>\<open>opts[j]\<close> or \<^verbatim>\<open>opts[j:]\<close> beyond the slice;
  \<^item> \<open>NilDereference\<close>: a method call or field read through a nil pointer;
  \<^item> \<open>OsError p\<close>: an error value returned by the operating system for path \<open>p\<close>.
  All but the last are panics; the last is an ordinary \<^verbatim>\<open>error\<close> return.
\<close>

datatype error =
    AssertFailed
  | Failf string "string list"
  | TypeAssertion
  | IndexOutOfRange
  | NilDereference
  | OsError string

text \<open>
  Modelled from the spec: \<^verbatim>\<open>contract.Assert\<close> and \<^verbatim>\<open>contract.Failf\<close> live in the repository's
  \<^verbatim>\<open>pkg/util/contract\<close>, which is not among the sources. The specification classes a failed
  assertion and every \<^verbatim>\<open>Failf\<close> as an unrecoverable, process-fatal invariant violation
  that immediately aborts the current generation run: nothing after the call is executed.
\<close>

definition contract_Assert :: "bool \<Rightarrow> error + unit" where
  "contract_Assert cond = (if cond then Inr () else Inl AssertFailed)"

definition contract_Failf :: "string \<Rightarrow> string list \<Rightarrow> error + 'a" where
  "contract_Failf msg args = Inl (Failf msg args)"

subsection \<open>Go types\<close>

text \<open>
  \<^verbatim>\<open>types.Package\<close> is handled by pointer: \<open>pkg_addr\<close> is the identity the generator's
  \<^verbatim>\<open>==\<close> compares, \<open>pkg_Path\<close> and \<open>pkg_Name\<close> are what \<^verbatim>\<open>Path()\<close> and \<^verbatim>\<open>Name()\<close>
  return. A nil pointer is \<open>None\<close>.
\<close>

datatype go_package = GoPackage (pkg_addr: nat) (pkg_Path: string) (pkg_Name: string)

text \<open>
  \<^verbatim>\<open>types.BasicKind\<close>: the three kinds the generator knows, and any other kind with
  the text \<^verbatim>\<open>%v\<close> prints for it.
\<close>

datatype basic_kind = Bool | String | Float64 | OtherKind string

text \<open>
  \<^verbatim>\<open>types.Type\<close>. \<open>TNamed pkg name underlying\<close> is a \<^verbatim>\<open>*types.Named\<close> with
  \<^verbatim>\<open>Obj().Pkg()\<close>, \<^verbatim>\<open>Obj().Name()\<close> and \<^verbatim>\<open>Underlying()\<close>; \<open>TStruct\<close> carries the fields
  in declaration order; \<open>TOther s\<close> is any other type, \<open>s\<close> being the text of its
  \<^verbatim>\<open>reflect.TypeOf\<close>. A field (\<^verbatim>\<open>*types.Var\<close>) has a name, the \<^verbatim>\<open>Anonymous()\<close> flag
  of an embedded field, and a type.
\<close>

datatype go_type =
    TBasic basic_kind
  | TNamed "go_package option" string go_type
  | TMap go_type go_type
  | TPointer go_type
  | TSlice go_type
  | TStruct "go_var list"
  | TOther string
and go_var = Var (var_Name: string) (Anonymous: bool) (var_Type: go_type)

subsection \<open>The package model\<close>

text \<open>
  Modelled from the spec: \<^verbatim>\<open>PropertyOptions\<close> is declared outside the generator's file; the
  specification gives it the target field \<open>Name\<close> and the flags \<open>Optional\<close>, \<open>Out\<close> and
  \<open>Replaces\<close>.
\<close>

record PropertyOptions =
  Name :: string
  Optional :: bool
  Out :: bool
  Replaces :: bool

text \<open>
  Modelled from the spec: the members. An alias wraps a target type, a constant a type and
  the string form of its value, an enum a sequence of string values; a resource and a
  struct are type members with \<^verbatim>\<open>Struct()\<close> and \<^verbatim>\<open>PropertyOptions()\<close>. \<open>OtherMember\<close> is
  a member of a dynamic type the generator does not know (\<open>s\<close> is the text of its
  \<^verbatim>\<open>reflect.TypeOf\<close>).
\<close>

record TypeMember =
  tm_Name :: string
  tm_Struct :: "go_var list"
  tm_PropertyOptions :: "PropertyOptions list"

datatype member =
    Alias string go_type
  | Const string go_type string
  | Enum string "string list"
  | Resource TypeMember
  | Struct TypeMember
  | OtherMember string

text \<open>
  Modelled from the spec: of \<^verbatim>\<open>Package\<close> the generator reads \<^verbatim>\<open>Pkginfo.Pkg\<close> and
  \<^verbatim>\<open>MemberFiles[name].Path\<close>. \<open>MemberFiles\<close> maps a member name to the relative path of
  the file that declares it; a name without an entry yields a nil file, whose \<^verbatim>\<open>Path\<close>
  cannot be read.
\<close>

record Package =
  Pkginfo_Pkg :: "go_package option"
  MemberFiles :: "string \<Rightarrow> string option"

text \<open>
  \<^verbatim>\<open>PackGenerator\<close>. \<open>OutRoot\<close> is the field \<^verbatim>\<open>Out\<close>. The two import maps are association
  lists with one entry per key, in the order the keys were first stored; they are the
  maps \<^verbatim>\<open>EmitFile\<close> allocates before any type is mapped.
\<close>

record PackGenerator =
  Root :: string
  OutRoot :: string
  Currpkg :: Package
  Currfile :: string
  Fhadres :: bool
  Ffimp :: "(string \<times> string) list"
  Flimp :: "(string \<times> bool) list"

section \<open>The type mapper\<close>

text \<open>
  \<^verbatim>\<open>registerForeign\<close>: the import name of a foreign package, allocated on first sight
  (the package's own name) and reused afterwards. The nil package cannot be asked for
  its path.
\<close>

definition registerForeign :: "PackGenerator \<Rightarrow> go_package option \<Rightarrow> error + (string \<times> PackGenerator)" where
  "registerForeign pg pkg =
     (case pkg of
        None \<Rightarrow> Inl NilDereference
      | Some p \<Rightarrow>
          (case map_of (Ffimp pg) (pkg_Path p) of
             Some impname \<Rightarrow> Inr (impname, pg)
           | None \<Rightarrow>
               Inr (pkg_Name p, pg\<lparr>Ffimp := AList.update (pkg_Path p) (pkg_Name p) (Ffimp pg)\<rparr>)))"

text \<open>Pointer equality of two packages.\<close>

definition same_package :: "go_package option \<Rightarrow> go_package option \<Rightarrow> bool" where
  "same_package a b = (map_option pkg_addr a = map_option pkg_addr b)"

text \<open>
  \<^verbatim>\<open>GenTypeName\<close> returns the TypeScript text of a type together with the generator
  whose import maps have been updated. A map type maps its key first, then its element.
\<close>

fun GenTypeName :: "PackGenerator \<Rightarrow> go_type \<Rightarrow> error + (string \<times> PackGenerator)" where
  "GenTypeName pg (TBasic Bool) = Inr (''boolean'', pg)"
| "GenTypeName pg (TBasic String) = Inr (''string'', pg)"
| "GenTypeName pg (TBasic Float64) = Inr (''number'', pg)"
| "GenTypeName pg (TBasic (OtherKind k)) =
     contract_Failf ''Unrecognized GenTypeName basic type: %v'' [k]"
| "GenTypeName pg (TNamed pkg name u) =
     (if same_package pkg (Pkginfo_Pkg (Currpkg pg)) then
        (case MemberFiles (Currpkg pg) name of
           None \<Rightarrow> Inl NilDereference
         | Some path \<Rightarrow>
             if path \<noteq> Currfile pg
             then Inr (name, pg\<lparr>Flimp := AList.update name True (Flimp pg)\<rparr>)
             else Inr (name, pg))
      else
        (case registerForeign pg pkg of
           Inl e \<Rightarrow> Inl e
         | Inr (impname, pg') \<Rightarrow> Inr (impname @ ''.'' @ name, pg')))"
| "GenTypeName pg (TMap k v) =
     (case GenTypeName pg k of
        Inl e \<Rightarrow> Inl e
      | Inr (kt, pg1) \<Rightarrow>
          (case GenTypeName pg1 v of
             Inl e \<Rightarrow> Inl e
           | Inr (vt, pg2) \<Rightarrow> Inr (''{[key: '' @ kt @ '']: '' @ vt @ ''}'', pg2)))"
| "GenTypeName pg (TPointer t) = GenTypeName pg t"
| "GenTypeName pg (TSlice t) =
     (case GenTypeName pg t of
        Inl e \<Rightarrow> Inl e
      | Inr (tt, pg') \<Rightarrow> Inr (tt @ ''[]'', pg'))"
| "GenTypeName pg (TStruct fs) = contract_Failf ''Unrecognized GenTypeName type: %v'' [''*types.Struct'']"
| "GenTypeName pg (TOther s) = contract_Failf ''Unrecognized GenTypeName type: %v'' [s]"

text \<open>
  Removing every pointer the mapper can reach: below pointers, slices and maps (the
  mapper does not look inside a named type or a struct).
\<close>

fun elide_pointers :: "go_type \<Rightarrow> go_type" where
  "elide_pointers (TPointer t) = elide_pointers t"
| "elide_pointers (TSlice t) = TSlice (elide_pointers t)"
| "elide_pointers (TMap k v) = TMap (elide_pointers k) (elide_pointers v)"
| "elide_pointers t = t"

section \<open>Field flattening\<close>

text \<open>
  \<^verbatim>\<open>forEachStructField\<close> walks the fields of a struct with two cursors: the loop index
  over the fields and \<open>j\<close> over the options. \<open>fields_loop\<close> is the loop on the fields
  still to visit, with \<open>j\<close> and the running count \<open>n\<close>; \<open>st\<close> is whatever the action
  changes (the writer and the generator). An embedded field must be a named type over
  a struct (two type assertions); the call for it gets \<^verbatim>\<open>opts[j:]\<close> and starts its own
  cursors at zero. A nil action is \<open>None\<close>: then \<^verbatim>\<open>opts[j]\<close> is never read.
\<close>

fun fields_loop ::
  "go_var list \<Rightarrow> PropertyOptions list \<Rightarrow> (go_var \<Rightarrow> PropertyOptions \<Rightarrow> 's \<Rightarrow> error + 's) option
     \<Rightarrow> nat \<Rightarrow> nat \<Rightarrow> 's \<Rightarrow> error + (nat \<times> 's)" where
  "fields_loop [] opts action j n st = Inr (n, st)"
| "fields_loop (Var nm True (TNamed pkg tn (TStruct embedded)) # rest) opts action j n st =
     (if length opts < j then Inl IndexOutOfRange
      else
        (case fields_loop embedded (drop j opts) action 0 0 st of
           Inl e \<Rightarrow> Inl e
         | Inr (k, st') \<Rightarrow> fields_loop rest opts action (j + k) (n + k) st'))"
| "fields_loop (Var nm True t # rest) opts action j n st = Inl TypeAssertion"
| "fields_loop (Var nm False t # rest) opts action j n st =
     (case action of
        None \<Rightarrow> fields_loop rest opts action (j + 1) (n + 1) st
      | Some act \<Rightarrow>
          if j < length opts then
            (case act (Var nm False t) (opts ! j) st of
               Inl e \<Rightarrow> Inl e
             | Inr st' \<Rightarrow> fields_loop rest opts action (j + 1) (n + 1) st')
          else Inl IndexOutOfRange)"

definition forEachStructField ::
  "go_var list \<Rightarrow> PropertyOptions list \<Rightarrow> (go_var \<Rightarrow> PropertyOptions \<Rightarrow> 's \<Rightarrow> error + 's) option
     \<Rightarrow> 's \<Rightarrow> error + (nat \<times> 's)" where
  "forEachStructField s opts action st = fields_loop s opts action 0 0 st"

definition forEachField ::
  "TypeMember \<Rightarrow> (go_var \<Rightarrow> PropertyOptions \<Rightarrow> 's \<Rightarrow> error + 's) option \<Rightarrow> 's \<Rightarrow> error + (nat \<times> 's)" where
  "forEachField t action st = forEachStructField (tm_Struct t) (tm_PropertyOptions t) action st"

text \<open>
  The action that only records its arguments: the sequence it leaves behind is the
  flattened sequence of (field, options) pairs.
\<close>

definition record_visit ::
  "go_var \<Rightarrow> PropertyOptions \<Rightarrow> (go_var \<times> PropertyOptions) list \<Rightarrow> error + (go_var \<times> PropertyOptions) list" where
  "record_visit fld opt seen = Inr (seen @ [(fld, opt)])"

text \<open>
  The specification's view of the embedding tree: its leaves (the fields that are not
  anonymous) depth-first and left to right, and the condition that every anonymous
  field is a named struct.
\<close>

fun leaf_fields :: "go_var list \<Rightarrow> go_var list" where
  "leaf_fields [] = []"
| "leaf_fields (Var nm True (TNamed pkg tn (TStruct embedded)) # rest) =
     leaf_fields embedded @ leaf_fields rest"
| "leaf_fields (Var nm True t # rest) = leaf_fields rest"
| "leaf_fields (Var nm False t # rest) = Var nm False t # leaf_fields rest"

fun well_embedded :: "go_var list \<Rightarrow> bool" where
  "well_embedded [] = True"
| "well_embedded (Var nm True (TNamed pkg tn (TStruct embedded)) # rest) =
     (well_embedded embedded \<and> well_embedded rest)"
| "well_embedded (Var nm True t # rest) = False"
| "well_embedded (Var nm False t # rest) = well_embedded rest"

text \<open>Running an action over a sequence of pairs, stopping at its first failure.\<close>

fun apply_all :: "('a \<Rightarrow> 'b \<Rightarrow> 's \<Rightarrow> error + 's) \<Rightarrow> ('a \<times> 'b) list \<Rightarrow> 's \<Rightarrow> error + 's" where
  "apply_all act [] st = Inr st"
| "apply_all act ((f, opt) # ps) st =
     (case act f opt st of Inl e \<Rightarrow> Inl e | Inr st' \<Rightarrow> apply_all act ps st')"

section \<open>The declaration emitters\<close>

text \<open>
  The writer is the text written so far; \<^verbatim>\<open>writefmt(w, msg, args...)\<close> appends the
  formatted message, given here already formatted (\<^verbatim>\<open>%v\<close> prints a string operand as it
  is). \<open>NL\<close>, \<open>DQ\<close> and \<open>SQ\<close> are the line feed, the double quote and the single quote.
\<close>

abbreviation NL :: string where "NL \<equiv> [CHR 0x0A]"
abbreviation DQ :: string where "DQ \<equiv> [CHR 0x22]"
abbreviation SQ :: string where "SQ \<equiv> [CHR 0x27]"

definition writefmt :: "string \<Rightarrow> string \<Rightarrow> string" where
  "writefmt w msg = w @ msg"

type_synonym emit_state = "string \<times> PackGenerator"

definition EmitAlias :: "PackGenerator \<Rightarrow> string \<Rightarrow> string \<Rightarrow> go_type \<Rightarrow> error + emit_state" where
  "EmitAlias pg w name target =
     (case GenTypeName pg target of
        Inl e \<Rightarrow> Inl e
      | Inr (ty, pg') \<Rightarrow> Inr (writefmt w (''export type '' @ name @ '' = '' @ ty @ '';'' @ NL), pg'))"

definition EmitConst :: "PackGenerator \<Rightarrow> string \<Rightarrow> string \<Rightarrow> go_type \<Rightarrow> string \<Rightarrow> error + emit_state" where
  "EmitConst pg w name ty val =
     (case GenTypeName pg ty of
        Inl e \<Rightarrow> Inl e
      | Inr (tt, pg') \<Rightarrow>
          Inr (writefmt w (''export let '' @ name @ '': '' @ tt @ '' = '' @ val @ '';'' @ NL), pg'))"

text \<open>The loop of \<^verbatim>\<open>EmitEnum\<close> over the values still to write, \<open>i\<close> being the index.\<close>

fun enum_values_loop :: "string list \<Rightarrow> nat \<Rightarrow> string \<Rightarrow> string" where
  "enum_values_loop [] i w = w"
| "enum_values_loop (v # vs) i w =
     enum_values_loop vs (i + 1)
       (writefmt (if 0 < i then writefmt w ('' |'' @ NL) else w) (''    '' @ v))"

definition EmitEnum :: "string \<Rightarrow> string \<Rightarrow> string list \<Rightarrow> error + string" where
  "EmitEnum w name vals =
     (let w1 = writefmt w (''export type '' @ name @ '' ='' @ NL) in
      case contract_Assert (0 < length vals) of
        Inl e \<Rightarrow> Inl e
      | Inr _ \<Rightarrow> Inr (writefmt (enum_values_loop vals 0 w1) ('';'' @ NL)))"

definition emitField ::
  "PackGenerator \<Rightarrow> string \<Rightarrow> go_var \<Rightarrow> PropertyOptions \<Rightarrow> string \<Rightarrow> error + emit_state" where
  "emitField pg w fld opt prefix =
     (let readonly = (if Replaces opt then ''readonly '' else '''');
          optional = (if Optional opt then ''?'' else '''')
      in case GenTypeName pg (var_Type fld) of
           Inl e \<Rightarrow> Inl e
         | Inr (ty, pg') \<Rightarrow>
             Inr (writefmt w (prefix @ readonly @ Name opt @ optional @ '': '' @ ty @ '';'' @ NL), pg'))"

text \<open>The two closures \<^verbatim>\<open>emitResourceClass\<close> hands to \<^verbatim>\<open>forEachField\<close>.\<close>

definition class_field_action :: "go_var \<Rightarrow> PropertyOptions \<Rightarrow> emit_state \<Rightarrow> error + emit_state" where
  "class_field_action fld opt st = (case st of (w, pg) \<Rightarrow> emitField pg w fld opt ''    public '')"

definition constructor_action :: "go_var \<Rightarrow> PropertyOptions \<Rightarrow> emit_state \<Rightarrow> error + emit_state" where
  "constructor_action fld opt st =
     (case st of (w, pg) \<Rightarrow>
        if \<not> Out opt then
          (let w1 = (if \<not> Optional opt then
                       writefmt
                         (writefmt
                            (writefmt w (''        if (args.'' @ Name opt @ '' === undefined) {'' @ NL))
                            (''            throw new Error('' @ DQ @ ''Missing required argument ''
                               @ SQ @ Name opt @ SQ @ DQ @ '');'' @ NL))
                         (''        }'' @ NL)
                     else w)
           in Inr (writefmt w1 (''        this.'' @ Name opt @ '' = args.'' @ Name opt @ '';'' @ NL), pg))
        else Inr (w, pg))"

definition emitResourceClass :: "PackGenerator \<Rightarrow> string \<Rightarrow> TypeMember \<Rightarrow> error + emit_state" where
  "emitResourceClass pg w res =
     (let name = tm_Name res;
          w1 = writefmt w (''export class '' @ name @ '' extends coconut.Resource implements ''
                             @ name @ ''Args {'' @ NL)
      in case forEachField res (Some class_field_action) (w1, pg) of
           Inl e \<Rightarrow> Inl e
         | Inr (fn, (w2, pg2)) \<Rightarrow>
             (let w3 = (if 0 < fn then writefmt w2 NL else w2);
                  w4 = writefmt w3 (''    constructor(args: '' @ name @ ''Args) {'' @ NL);
                  w5 = writefmt w4 (''        super();'' @ NL)
              in case forEachField res (Some constructor_action) (w5, pg2) of
                   Inl e \<Rightarrow> Inl e
                 | Inr (_, (w6, pg3)) \<Rightarrow>
                     Inr (writefmt (writefmt w6 (''    }'' @ NL)) (''}'' @ NL), pg3)))"

text \<open>
  \<^verbatim>\<open>emitStructType\<close> formats its first line twice: \<^verbatim>\<open>fmt.Sprintf\<close> builds the line, and
  \<^verbatim>\<open>writefmt\<close> takes the result as a format without operands. \<open>sprintf0\<close> is the Go
  library's \<^verbatim>\<open>fmt.Sprintf\<close> on a format without operands (the identity on a text
  without a percent sign).
\<close>

definition struct_field_action :: "go_var \<Rightarrow> PropertyOptions \<Rightarrow> emit_state \<Rightarrow> error + emit_state" where
  "struct_field_action fld opt st =
     (case st of (w, pg) \<Rightarrow> if \<not> Out opt then emitField pg w fld opt ''    '' else Inr (w, pg))"

definition emitStructType ::
  "(string \<Rightarrow> string) \<Rightarrow> PackGenerator \<Rightarrow> string \<Rightarrow> TypeMember \<Rightarrow> string \<Rightarrow> error + emit_state" where
  "emitStructType sprintf0 pg w t name =
     (let w1 = writefmt w (sprintf0 (''export interface '' @ name @ '' {'' @ NL))
      in case forEachField t (Some struct_field_action) (w1, pg) of
           Inl e \<Rightarrow> Inl e
         | Inr (_, (w2, pg2)) \<Rightarrow> Inr (writefmt w2 (''}'' @ NL), pg2))"

definition EmitStruct :: "(string \<Rightarrow> string) \<Rightarrow> PackGenerator \<Rightarrow> string \<Rightarrow> TypeMember \<Rightarrow> error + emit_state" where
  "EmitStruct sprintf0 pg w s = emitStructType sprintf0 pg w s (tm_Name s)"

definition EmitResource :: "(string \<Rightarrow> string) \<Rightarrow> PackGenerator \<Rightarrow> string \<Rightarrow> TypeMember \<Rightarrow> error + emit_state" where
  "EmitResource sprintf0 pg w res =
     (case emitResourceClass pg w res of
        Inl e \<Rightarrow> Inl e
      | Inr (w1, pg1) \<Rightarrow>
          (case emitStructType sprintf0 pg1 (writefmt w1 NL) res (tm_Name res @ ''Args'') of
             Inl e \<Rightarrow> Inl e
           | Inr (w2, pg2) \<Rightarrow> Inr (w2, pg2\<lparr>Fhadres := True\<rparr>)))"

subsection \<open>The file body\<close>

text \<open>The dynamic type of a member, as \<^verbatim>\<open>reflect.TypeOf\<close> prints it.\<close>

fun TypeOf :: "member \<Rightarrow> string" where
  "TypeOf (Alias n t) = ''*cidlc.Alias''"
| "TypeOf (Const n t v) = ''*cidlc.Const''"
| "TypeOf (Enum n vs) = ''*cidlc.Enum''"
| "TypeOf (Resource r) = ''*cidlc.Resource''"
| "TypeOf (Struct s) = ''*cidlc.Struct''"
| "TypeOf (OtherMember s) = s"

fun isalias :: "member \<Rightarrow> bool" where
  "isalias (Alias n t) = True"
| "isalias m = False"

fun isconst :: "member \<Rightarrow> bool" where
  "isconst (Const n t v) = True"
| "isconst m = False"

text \<open>The type switch of \<^verbatim>\<open>genFileBody\<close>.\<close>

fun emit_member :: "(string \<Rightarrow> string) \<Rightarrow> PackGenerator \<Rightarrow> string \<Rightarrow> member \<Rightarrow> error + emit_state" where
  "emit_member sprintf0 pg w (Alias n t) = EmitAlias pg w n t"
| "emit_member sprintf0 pg w (Const n t v) = EmitConst pg w n t v"
| "emit_member sprintf0 pg w (Enum n vs) =
     (case EmitEnum w n vs of Inl e \<Rightarrow> Inl e | Inr w' \<Rightarrow> Inr (w', pg))"
| "emit_member sprintf0 pg w (Resource r) = EmitResource sprintf0 pg w r"
| "emit_member sprintf0 pg w (Struct s) = EmitStruct sprintf0 pg w s"
| "emit_member sprintf0 pg w (OtherMember s) =
     contract_Failf ''Unrecognized package member type: %v'' [s]"

text \<open>
  The loop of \<^verbatim>\<open>genFileBody\<close> over the members still to emit; \<open>prev\<close> is
  \<^verbatim>\<open>members[i-1]\<close>, absent at index zero.
\<close>

fun members_loop ::
  "(string \<Rightarrow> string) \<Rightarrow> PackGenerator \<Rightarrow> string \<Rightarrow> member option \<Rightarrow> member list \<Rightarrow> error + emit_state" where
  "members_loop sprintf0 pg w prev [] = Inr (w, pg)"
| "members_loop sprintf0 pg w prev (m # ms) =
     (let w1 = (case prev of
                  None \<Rightarrow> w
                | Some p \<Rightarrow>
                    if (\<not> isalias m \<and> \<not> isconst m) \<or> TypeOf m \<noteq> TypeOf p
                    then writefmt w NL else w)
      in case emit_member sprintf0 pg w1 m of
           Inl e \<Rightarrow> Inl e
         | Inr (w2, pg2) \<Rightarrow> members_loop sprintf0 pg2 w2 (Some m) ms)"

definition genFileBody :: "(string \<Rightarrow> string) \<Rightarrow> PackGenerator \<Rightarrow> member list \<Rightarrow> error + emit_state" where
  "genFileBody sprintf0 pg members =
     (case members_loop sprintf0 pg [] None members of
        Inl e \<Rightarrow> Inl e
      | Inr (w, pg') \<Rightarrow> Inr (writefmt w NL, pg'))"

section \<open>Paths\<close>

text \<open>
  The functions of the Go library the file assembler calls, on a system whose path
  separator is the slash and whose paths have no volume name: \<^verbatim>\<open>strings.LastIndex\<close>
  with a one-byte substring (the last index of that byte, or -1), \<^verbatim>\<open>strings.HasPrefix\<close>,
  \<^verbatim>\<open>strings.Join\<close>, and \<^verbatim>\<open>filepath.Clean\<close>, \<^verbatim>\<open>Join\<close>, \<^verbatim>\<open>Dir\<close>, \<^verbatim>\<open>Ext\<close> and \<^verbatim>\<open>Rel\<close>.
\<close>

definition IsPathSeparator :: "char \<Rightarrow> bool" where
  "IsPathSeparator c = (c = CHR ''/'')"

text \<open>Scanning from index \<open>i - 1\<close> down to zero.\<close>

fun last_index_loop :: "string \<Rightarrow> char \<Rightarrow> nat \<Rightarrow> int" where
  "last_index_loop s c 0 = - 1"
| "last_index_loop s c (Suc i) = (if s ! i = c then int i else last_index_loop s c i)"

definition LastIndexByte :: "string \<Rightarrow> char \<Rightarrow> int" where
  "LastIndexByte s c = last_index_loop s c (length s)"

definition HasPrefix :: "string \<Rightarrow> string \<Rightarrow> bool" where
  "HasPrefix s prefix = (length prefix \<le> length s \<and> take (length prefix) s = prefix)"

fun strings_Join :: "string list \<Rightarrow> string \<Rightarrow> string" where
  "strings_Join [] sep = []"
| "strings_Join [a] sep = a"
| "strings_Join (a # b # rest) sep = a @ sep @ strings_Join (b # rest) sep"

text \<open>
  \<^verbatim>\<open>Clean\<close> writes into a buffer \<open>out\<close> whose length is the write index; \<open>dotdot\<close> is the
  index where a \<^verbatim>\<open>..\<close> element must stop backtracking. \<open>backtrack\<close> is the inner loop
  that lowers the write index to the previous separator.
\<close>

function backtrack :: "string \<Rightarrow> nat \<Rightarrow> nat \<Rightarrow> nat" where
  "backtrack buf dotdot w =
     (if dotdot < w \<and> \<not> IsPathSeparator (buf ! w) then backtrack buf dotdot (w - 1) else w)"
  by pat_completeness auto
termination
  by (relation "measure (\<lambda>(buf, dotdot, w). w)") auto

declare backtrack.simps [simp del]

function clean_loop :: "bool \<Rightarrow> string \<Rightarrow> string \<Rightarrow> nat \<Rightarrow> string" where
  "clean_loop rooted [] out dotdot = out"
| "clean_loop rooted (c # cs) out dotdot =
     (if IsPathSeparator c then clean_loop rooted cs out dotdot
      else if c = CHR ''.'' \<and> (cs = [] \<or> IsPathSeparator (hd cs)) then clean_loop rooted cs out dotdot
      else if c = CHR ''.'' \<and> hd cs = CHR ''.'' \<and> (tl cs = [] \<or> IsPathSeparator (hd (tl cs))) then
        (if dotdot < length out then
           clean_loop rooted (tl cs) (take (backtrack out dotdot (length out - 1)) out) dotdot
         else if \<not> rooted then
           clean_loop rooted (tl cs) ((if 0 < length out then out @ ''/'' else out) @ ''..'')
             (length ((if 0 < length out then out @ ''/'' else out) @ ''..''))
         else clean_loop rooted (tl cs) out dotdot)
      else
        clean_loop rooted (dropWhile (\<lambda>x. \<not> IsPathSeparator x) (c # cs))
          ((if (rooted \<and> length out \<noteq> 1) \<or> (\<not> rooted \<and> length out \<noteq> 0) then out @ ''/'' else out)
             @ takeWhile (\<lambda>x. \<not> IsPathSeparator x) (c # cs))
          dotdot)"
  by pat_completeness auto
termination
proof (relation "measure (\<lambda>(rooted, p, out, dotdot). length p)")
  fix c :: char and cs :: string
  assume "\<not> IsPathSeparator c"
  then have "dropWhile (\<lambda>x. \<not> IsPathSeparator x) (c # cs) = dropWhile (\<lambda>x. \<not> IsPathSeparator x) cs"
    by simp
  moreover have "length (dropWhile (\<lambda>x. \<not> IsPathSeparator x) cs) \<le> length cs"
    by (rule length_dropWhile_le)
  ultimately show "((rooted, dropWhile (\<lambda>x. \<not> IsPathSeparator x) (c # cs), out', dotdot), (rooted, c # cs, out, dotdot))
      \<in> measure (\<lambda>(rooted, p, out, dotdot). length p)" for rooted out out' dotdot
    by simp
qed simp_all

definition Clean :: "string \<Rightarrow> string" where
  "Clean path =
     (if path = [] then ''.''
      else
        (let rooted = IsPathSeparator (hd path);
             out = (if rooted then clean_loop rooted (tl path) ''/'' 1
                    else clean_loop rooted path [] 0)
         in if out = [] then ''.'' else out))"

fun Join :: "string list \<Rightarrow> string" where
  "Join [] = []"
| "Join (e # es) = (if e \<noteq> [] then Clean (strings_Join (e # es) ''/'') else Join es)"

definition Dir :: "string \<Rightarrow> string" where
  "Dir path = Clean (rev (dropWhile (\<lambda>c. \<not> IsPathSeparator c) (rev path)))"

text \<open>\<^verbatim>\<open>Ext\<close> scans backwards (here: the reversed path forwards) up to the last separator.\<close>

fun ext_scan :: "string \<Rightarrow> string \<Rightarrow> string" where
  "ext_scan [] seen = []"
| "ext_scan (c # cs) seen =
     (if IsPathSeparator c then []
      else if c = CHR ''.'' then c # seen
      else ext_scan cs (c # seen))"

definition Ext :: "string \<Rightarrow> string" where
  "Ext path = ext_scan (rev path) []"

text \<open>
  The loop of \<^verbatim>\<open>Rel\<close> that skips the common leading elements. \<open>b\<close> and \<open>t\<close> are
  \<^verbatim>\<open>base[b0:]\<close> and \<^verbatim>\<open>targ[t0:]\<close>; the result also carries \<^verbatim>\<open>base[b0:bi]\<close>.
\<close>

function rel_loop :: "string \<Rightarrow> string \<Rightarrow> string \<times> string \<times> string" where
  "rel_loop b t =
     (if b \<noteq> [] \<and> t \<noteq> [] then
        (if takeWhile (\<lambda>c. c \<noteq> CHR ''/'') t \<noteq> takeWhile (\<lambda>c. c \<noteq> CHR ''/'') b
         then (b, takeWhile (\<lambda>c. c \<noteq> CHR ''/'') b, t)
         else rel_loop (drop (length (takeWhile (\<lambda>c. c \<noteq> CHR ''/'') b) + 1) b)
                       (drop (length (takeWhile (\<lambda>c. c \<noteq> CHR ''/'') t) + 1) t))
      else (b, [], t))"
  by pat_completeness auto
termination
  by (relation "measure (\<lambda>(b, t). length b)") auto

declare rel_loop.simps [simp del]

text \<open>\<^verbatim>\<open>Rel\<close> returns a path or an error; the error is \<open>None\<close>.\<close>

definition Rel :: "string \<Rightarrow> string \<Rightarrow> string option" where
  "Rel basepath targpath =
     (let base = Clean basepath; targ = Clean targpath in
      if targ = base then Some ''.''
      else
        (let base = (if base = ''.'' then [] else base);
             baseSlashed = (0 < length base \<and> hd base = CHR ''/'');
             targSlashed = (0 < length targ \<and> hd targ = CHR ''/'')
         in if baseSlashed \<noteq> targSlashed then None
            else
              (case rel_loop base targ of
                 (b, elem, t) \<Rightarrow>
                   if elem = ''..'' then None
                   else if b \<noteq> [] then
                     Some (''..'' @ concat (replicate (count_list b CHR ''/'') ''/..'')
                           @ (if t \<noteq> [] then ''/'' @ t else []))
                   else Some t)))"

section \<open>The file assembler\<close>

text \<open>
  What the assembler needs from outside the program: whether the output file can be
  opened and whether the buffered text can be written out, and the order in which the
  Go runtime ranges over the keys of a map (given the keys in their order of insertion).
\<close>

record environment =
  can_open :: "string \<Rightarrow> bool"
  can_flush :: "string \<Rightarrow> bool"
  map_order :: "string list \<Rightarrow> string list"

text \<open>The first statement of \<^verbatim>\<open>emitFileContents\<close>: the extension becomes \<^verbatim>\<open>.ts\<close>.\<close>

definition output_path :: "string \<Rightarrow> string" where
  "output_path file =
     (let dotindex = LastIndexByte file CHR ''.''
      in (if dotindex \<noteq> - 1 then take (nat dotindex) file else file) @ ''.ts'')"

text \<open>The body of the loop over the local imports: one import line, or a panic.\<close>

definition local_import ::
  "PackGenerator \<Rightarrow> string \<Rightarrow> string \<Rightarrow> error + string" where
  "local_import pg file local' =
     (let dir = Dir file in
      case MemberFiles (Currpkg pg) local' of
        None \<Rightarrow> Inl NilDereference
      | Some module \<Rightarrow>
          (case Rel dir (Join [OutRoot pg, module]) of
             None \<Rightarrow> Inl AssertFailed
           | Some relimp \<Rightarrow>
               (let impname = (if HasPrefix relimp ''.'' then relimp else ''./'' @ relimp);
                    impname = (if Ext impname \<noteq> []
                               then take (nat (LastIndexByte impname CHR ''.'')) impname
                               else impname)
                in Inr (''import {'' @ local' @ ''} from '' @ DQ @ impname @ DQ @ '';'' @ NL))))"

fun local_imports_loop ::
  "PackGenerator \<Rightarrow> string \<Rightarrow> string \<Rightarrow> string list \<Rightarrow> error + string" where
  "local_imports_loop pg file w [] = Inr w"
| "local_imports_loop pg file w (local' # rest) =
     (case local_import pg file local' of
        Inl e \<Rightarrow> Inl e
      | Inr line \<Rightarrow> local_imports_loop pg file (writefmt w line) rest)"

text \<open>The loop over the foreign imports fails at its first entry.\<close>

fun foreign_imports_loop ::
  "(string \<times> string) list \<Rightarrow> string \<Rightarrow> string list \<Rightarrow> error + string" where
  "foreign_imports_loop ffimp w [] = Inr w"
| "foreign_imports_loop ffimp w (impname # rest) =
     contract_Failf ''Foreign imports not yet supported: import=%v pkg=%v''
       [impname, (case map_of ffimp impname of Some pkg \<Rightarrow> pkg | None \<Rightarrow> [])]"

definition banner :: string where
  "banner =
     ''// *** WARNING: this file was generated by the Coconut IDL Compiler (CIDLC).  ***'' @ NL
     @ ''// *** Do not edit by hand unless you are taking matters into your own hands! ***'' @ NL
     @ NL"

text \<open>
  \<^verbatim>\<open>emitFileContents\<close> returns the path and the content of the file it has written, the
  error of the operating system when the file cannot be opened or written, or a panic.
\<close>

definition emitFileContents ::
  "environment \<Rightarrow> PackGenerator \<Rightarrow> string \<Rightarrow> string \<Rightarrow> error + (string \<times> string)" where
  "emitFileContents env pg file body =
     (let file = output_path file in
      if \<not> can_open env file then Inl (OsError file)
      else
        (let w = writefmt [] banner;
             w = (if Fhadres pg
                  then writefmt (writefmt w (''import * as coconut from '' @ DQ @ ''@coconut/coconut'' @ DQ @ '';'' @ NL)) NL
                  else w)
         in case (if 0 < length (Flimp pg)
                  then (case local_imports_loop pg file w (map_order env (map fst (Flimp pg))) of
                          Inl e \<Rightarrow> Inl e
                        | Inr w' \<Rightarrow> Inr (writefmt w' NL))
                  else Inr w) of
              Inl e \<Rightarrow> Inl e
            | Inr w \<Rightarrow>
                (case (if 0 < length (Ffimp pg)
                       then (case foreign_imports_loop (Ffimp pg) w (map_order env (map fst (Ffimp pg))) of
                               Inl e \<Rightarrow> Inl e
                             | Inr w' \<Rightarrow> Inr (writefmt w' NL))
                       else Inr w) of
                   Inl e \<Rightarrow> Inl e
                 | Inr w \<Rightarrow>
                     (let w = writefmt w (body @ NL)
                      in if can_flush env file then Inr (file, w) else Inl (OsError file)))))"

text \<open>
  \<^verbatim>\<open>EmitFile\<close>: the per-file state is reset, the body is generated, then the file is
  assembled. (The deferred function puts the three per-file fields back afterwards.)
\<close>

definition EmitFile ::
  "environment \<Rightarrow> (string \<Rightarrow> string) \<Rightarrow> PackGenerator \<Rightarrow> string \<Rightarrow> member list
     \<Rightarrow> error + (string \<times> string)" where
  "EmitFile env sprintf0 pg file members =
     (case genFileBody sprintf0 (pg\<lparr>Fhadres := False, Ffimp := [], Flimp := []\<rparr>) members of
        Inl e \<Rightarrow> Inl e
      | Inr (body, pg') \<Rightarrow> emitFileContents env pg' file body)"

section \<open>The emitted text, as the specification describes it\<close>

text \<open>
  The specification's view of an enum body: the values, each on a line of its own after
  four spaces, joined by the union bar.
\<close>

fun union_lines :: "string list \<Rightarrow> string" where
  "union_lines [] = []"
| "union_lines [v] = ''    '' @ v"
| "union_lines (v # v' # vs) = ''    '' @ v @ '' |'' @ NL @ union_lines (v' # vs)"

text \<open>A value as a TypeScript string literal.\<close>

definition quoted :: "string \<Rightarrow> string" where
  "quoted v = DQ @ v @ DQ"

text \<open>
  The specification's view of a property line and of the property lines of a sequence
  of flattened fields, the generator being threaded through the type mapper.
\<close>

definition property_line :: "string \<Rightarrow> PropertyOptions \<Rightarrow> string \<Rightarrow> string" where
  "property_line prefix opt ty =
     prefix @ (if Replaces opt then ''readonly '' else '''') @ Name opt
       @ (if Optional opt then ''?'' else '''') @ '': '' @ ty @ '';'' @ NL"

fun property_lines ::
  "PackGenerator \<Rightarrow> string \<Rightarrow> (go_var \<times> PropertyOptions) list \<Rightarrow> error + (string \<times> PackGenerator)" where
  "property_lines pg prefix [] = Inr ([], pg)"
| "property_lines pg prefix ((fld, opt) # ps) =
     (case GenTypeName pg (var_Type fld) of
        Inl e \<Rightarrow> Inl e
      | Inr (ty, pg1) \<Rightarrow>
          (case property_lines pg1 prefix ps of
             Inl e \<Rightarrow> Inl e
           | Inr (rest, pg2) \<Rightarrow> Inr (property_line prefix opt ty @ rest, pg2)))"

text \<open>The specification's view of the constructor: a guard for a required field, then the assignment.\<close>

definition guard_lines :: "string \<Rightarrow> string" where
  "guard_lines n =
     ''        if (args.'' @ n @ '' === undefined) {'' @ NL
     @ ''            throw new Error('' @ DQ @ ''Missing required argument '' @ SQ @ n @ SQ @ DQ @ '');'' @ NL
     @ ''        }'' @ NL"

definition assign_line :: "string \<Rightarrow> string" where
  "assign_line n = ''        this.'' @ n @ '' = args.'' @ n @ '';'' @ NL"

definition constructor_lines :: "PropertyOptions \<Rightarrow> string" where
  "constructor_lines opt = (if Optional opt then [] else guard_lines (Name opt)) @ assign_line (Name opt)"

definition constructor_text :: "string \<Rightarrow> PropertyOptions list \<Rightarrow> string" where
  "constructor_text name opts =
     ''    constructor(args: '' @ name @ ''Args) {'' @ NL
     @ ''        super();'' @ NL
     @ concat (map constructor_lines (filter (\<lambda>opt. \<not> Out opt) opts))
     @ ''    }'' @ NL"

definition class_header :: "string \<Rightarrow> string" where
  "class_header name =
     ''export class '' @ name @ '' extends coconut.Resource implements '' @ name @ ''Args {'' @ NL"

text \<open>The flattened (field, options) pairs of a member.\<close>

definition flattened :: "TypeMember \<Rightarrow> (go_var \<times> PropertyOptions) list" where
  "flattened t = zip (leaf_fields (tm_Struct t)) (tm_PropertyOptions t)"

section \<open>What a type refers to\<close>

text \<open>
  What a type refers to, along the paths the mapper follows: the names of members of the
  current package that live in another file, and the paths of foreign packages.
\<close>

fun local_refs :: "PackGenerator \<Rightarrow> go_type \<Rightarrow> string set" where
  "local_refs pg (TNamed pkg name u) =
     (if same_package pkg (Pkginfo_Pkg (Currpkg pg))
         \<and> MemberFiles (Currpkg pg) name \<noteq> Some (Currfile pg)
      then {name} else {})"
| "local_refs pg (TMap k v) = local_refs pg k \<union> local_refs pg v"
| "local_refs pg (TPointer t) = local_refs pg t"
| "local_refs pg (TSlice t) = local_refs pg t"
| "local_refs pg t = {}"

fun foreign_refs :: "PackGenerator \<Rightarrow> go_type \<Rightarrow> string set" where
  "foreign_refs pg (TNamed pkg name u) =
     (if same_package pkg (Pkginfo_Pkg (Currpkg pg)) then {}
      else (case pkg of None \<Rightarrow> {} | Some p \<Rightarrow> {pkg_Path p}))"
| "foreign_refs pg (TMap k v) = foreign_refs pg k \<union> foreign_refs pg v"
| "foreign_refs pg (TPointer t) = foreign_refs pg t"
| "foreign_refs pg (TSlice t) = foreign_refs pg t"
| "foreign_refs pg t = {}"

text \<open>
  One generator extends another when the file context is the same and every import
  entry of the first is an entry of the second.
\<close>

definition extends :: "PackGenerator \<Rightarrow> PackGenerator \<Rightarrow> bool" where
  "extends pg pg' \<longleftrightarrow>
     Currpkg pg' = Currpkg pg \<and> Currfile pg' = Currfile pg
     \<and> map_of (Ffimp pg) \<subseteq>\<^sub>m map_of (Ffimp pg')
     \<and> (\<forall>k. map_of (Flimp pg) k = Some True \<longrightarrow> map_of (Flimp pg') k = Some True)"

section \<open>The file body, as the specification describes it\<close>

text \<open>
  The specification's view of the file body. Between two adjacent members there is no
  blank line exactly when both are of the same kind and that kind is alias or constant.
  The body is, member by member, the separating blank line (if any) and the member's
  own text (what its emitter writes on an empty writer), the generator being threaded
  through the emitters.
\<close>

definition blank_line_between :: "member \<Rightarrow> member \<Rightarrow> bool" where
  "blank_line_between p m = (\<not> (TypeOf m = TypeOf p \<and> (isalias m \<or> isconst m)))"

fun body_members ::
  "(string \<Rightarrow> string) \<Rightarrow> PackGenerator \<Rightarrow> member option \<Rightarrow> member list \<Rightarrow> error + emit_state" where
  "body_members sprintf0 pg prev [] = Inr ([], pg)"
| "body_members sprintf0 pg prev (m # ms) =
     (case emit_member sprintf0 pg [] m of
        Inl e \<Rightarrow> Inl e
      | Inr (own, pg1) \<Rightarrow>
          (case body_members sprintf0 pg1 (Some m) ms of
             Inl e \<Rightarrow> Inl e
           | Inr (rest, pg2) \<Rightarrow>
               Inr ((case prev of
                       None \<Rightarrow> []
                     | Some p \<Rightarrow> if blank_line_between p m then NL else []) @ own @ rest, pg2)))"

text \<open>
  Putting a text in front of what an emitter returns: an emitter only appends to its
  writer, and its failures do not depend on the writer.
\<close>

definition prepend :: "string \<Rightarrow> error + emit_state \<Rightarrow> error + emit_state" where
  "prepend w r = (case r of Inl e \<Rightarrow> Inl e | Inr (out, pg) \<Rightarrow> Inr (w @ out, pg))"

definition prepend_counted :: "string \<Rightarrow> error + (nat \<times> emit_state) \<Rightarrow> error + (nat \<times> emit_state)" where
  "prepend_counted w r = (case r of Inl e \<Rightarrow> Inl e | Inr (k, (out, pg)) \<Rightarrow> Inr (k, (w @ out, pg)))"

section \<open>The import lines, as the specification describes them\<close>

text \<open>
  A relative path made into a module path: prefixed with \<^verbatim>\<open>./\<close> unless it starts with a
  dot, then stripped of the extension of its last element.
\<close>

definition module_form :: "string \<Rightarrow> string" where
  "module_form rel =
     (let p = (if HasPrefix rel ''.'' then rel else ''./'' @ rel)
      in if Ext p \<noteq> [] then take (nat (LastIndexByte p CHR ''.'')) p else p)"

definition relative_module :: "string \<Rightarrow> string \<Rightarrow> string option" where
  "relative_module dir target = map_option module_form (Rel dir target)"

text \<open>
  The module path of a member for the output file \<open>file\<close>: from the directory of the
  output file to the member's home file under the output root.
\<close>

definition module_path :: "PackGenerator \<Rightarrow> string \<Rightarrow> string \<Rightarrow> string option" where
  "module_path pg file name =
     (case MemberFiles (Currpkg pg) name of
        None \<Rightarrow> None
      | Some home \<Rightarrow> relative_module (Dir file) (Join [OutRoot pg, home]))"

text \<open>
  The module path as the specification words it: to the directory of the home file.
\<close>

definition claimed_module_path :: "PackGenerator \<Rightarrow> string \<Rightarrow> string \<Rightarrow> string option" where
  "claimed_module_path pg file name =
     (case MemberFiles (Currpkg pg) name of
        None \<Rightarrow> None
      | Some home \<Rightarrow> relative_module (Dir file) (Dir (Join [OutRoot pg, home])))"

definition import_line :: "string \<Rightarrow> string \<Rightarrow> string" where
  "import_line name path = ''import {'' @ name @ ''} from '' @ DQ @ path @ DQ @ '';'' @ NL"

definition coconut_import :: string where
  "coconut_import = ''import * as coconut from '' @ DQ @ ''@coconut/coconut'' @ DQ @ '';'' @ NL @ NL"

text \<open>The two import sections of the header, as results: the text so far, or a panic.\<close>

definition local_section :: "environment \<Rightarrow> PackGenerator \<Rightarrow> string \<Rightarrow> string \<Rightarrow> error + string" where
  "local_section env pg file w =
     (if Flimp pg = [] then Inr w
      else (case local_imports_loop pg file w (map_order env (map fst (Flimp pg))) of
              Inl e \<Rightarrow> Inl e
            | Inr w' \<Rightarrow> Inr (w' @ NL)))"

definition foreign_section :: "environment \<Rightarrow> PackGenerator \<Rightarrow> string \<Rightarrow> error + string" where
  "foreign_section env pg w =
     (if Ffimp pg = [] then Inr w
      else (case foreign_imports_loop (Ffimp pg) w (map_order env (map fst (Ffimp pg))) of
              Inl e \<Rightarrow> Inl e
            | Inr w' \<Rightarrow> Inr (w' @ NL)))"

definition not_supported :: "string \<Rightarrow> string \<Rightarrow> error" where
  "not_supported impname pkg =
     Failf ''Foreign imports not yet supported: import=%v pkg=%v'' [impname, pkg]"

section \<open>Example inputs\<close>

text \<open>A member with two levels of embedding: \<open>a\<close>, then \<open>Middle\<close> (\<open>b\<close>, then \<open>Inner\<close> with \<open>c\<close>), then \<open>d\<close>.\<close>

definition ex_opt :: "string \<Rightarrow> PropertyOptions" where
  "ex_opt n = \<lparr>Name = n, Optional = False, Out = False, Replaces = False\<rparr>"

definition ex_inner :: "go_var list" where
  "ex_inner = [Var ''c'' False (TBasic String)]"

definition ex_middle :: "go_var list" where
  "ex_middle = [Var ''b'' False (TBasic Bool), Var ''Inner'' True (TNamed None ''Inner'' (TStruct ex_inner))]"

definition ex_nested :: TypeMember where
  "ex_nested = \<lparr>tm_Name = ''Outer'',
     tm_Struct = [Var ''a'' False (TBasic String),
                  Var ''Middle'' True (TNamed None ''Middle'' (TStruct ex_middle)),
                  Var ''d'' False (TBasic Float64)],
     tm_PropertyOptions = [ex_opt ''a'', ex_opt ''b'', ex_opt ''c'', ex_opt ''d'']\<rparr>"

text \<open>
  A resource \<open>Bucket\<close> with a required field \<open>a\<close>, an optional field \<open>b\<close> and an output
  field \<open>c\<close>, in a package whose member \<open>Bucket\<close> is declared in the current file
  \<open>a/x.go\<close> and whose member \<open>Y\<close> is declared in \<open>b/y.go\<close>.
\<close>

definition ex_pkg :: go_package where
  "ex_pkg = GoPackage 1 ''example/pkg'' ''pkg''"

definition ex_pg :: PackGenerator where
  "ex_pg = \<lparr>Root = ''in'', OutRoot = ''out'',
            Currpkg = \<lparr>Pkginfo_Pkg = Some ex_pkg,
                       MemberFiles = map_of [(''Bucket'', ''a/x.go''), (''Y'', ''b/y.go'')]\<rparr>,
            Currfile = ''a/x.go'', Fhadres = False, Ffimp = [], Flimp = []\<rparr>"

definition opt_a :: PropertyOptions where
  "opt_a = \<lparr>Name = ''a'', Optional = False, Out = False, Replaces = False\<rparr>"

definition opt_b :: PropertyOptions where
  "opt_b = \<lparr>Name = ''b'', Optional = True, Out = False, Replaces = True\<rparr>"

definition opt_c :: PropertyOptions where
  "opt_c = \<lparr>Name = ''c'', Optional = False, Out = True, Replaces = False\<rparr>"

definition ex_resource :: TypeMember where
  "ex_resource = \<lparr>tm_Name = ''Bucket'',
     tm_Struct = [Var ''A'' False (TBasic String), Var ''B'' False (TBasic String),
                  Var ''C'' False (TBasic String)],
     tm_PropertyOptions = [opt_a, opt_b, opt_c]\<rparr>"

definition ex_class_head :: string where
  "ex_class_head =
     ''export class Bucket extends coconut.Resource implements BucketArgs {'' @ NL
     @ ''    public a: string;'' @ NL
     @ ''    public readonly b?: string;'' @ NL"

definition ex_class_tail :: string where
  "ex_class_tail =
     NL
     @ ''    constructor(args: BucketArgs) {'' @ NL
     @ ''        super();'' @ NL
     @ ''        if (args.a === undefined) {'' @ NL
     @ ''            throw new Error('' @ DQ @ ''Missing required argument '' @ SQ @ ''a'' @ SQ @ DQ @ '');'' @ NL
     @ ''        }'' @ NL
     @ ''        this.a = args.a;'' @ NL
     @ ''        this.b = args.b;'' @ NL
     @ ''    }'' @ NL
     @ ''}'' @ NL"

text \<open>
  A map from a member of the current package declared in another file to a slice of
  pointers to a type of a foreign package.
\<close>

definition ex_foreign :: go_package where
  "ex_foreign = GoPackage 2 ''other/lib'' ''lib''"

definition ex_type :: go_type where
  "ex_type = TMap (TNamed (Some ex_pkg) ''Y'' (TBasic String))
                  (TSlice (TPointer (TNamed (Some ex_foreign) ''Z'' (TBasic Float64))))"

definition ex_pg_after :: PackGenerator where
  "ex_pg_after = ex_pg\<lparr>Ffimp := [(''other/lib'', ''lib'')], Flimp := [(''Y'', True)]\<rparr>"

text \<open>Two constants, an alias and a third constant.\<close>

definition ex_members :: "member list" where
  "ex_members = [Const ''A'' (TBasic Float64) ''1'', Const ''B'' (TBasic Float64) ''2'',
                 Alias ''T'' (TBasic String), Const ''C'' (TBasic Float64) ''3'']"

text \<open>
  An environment in which files can be opened and written and maps are ranged over in
  the order of insertion; a generator that has recorded the local reference \<open>Y\<close>; one
  that has recorded a foreign reference.
\<close>

definition ex_env :: environment where
  "ex_env = \<lparr>can_open = (\<lambda>p. True), can_flush = (\<lambda>p. True), map_order = (\<lambda>ks. ks)\<rparr>"

definition ex_pg_local :: PackGenerator where
  "ex_pg_local = ex_pg\<lparr>Flimp := [(''Y'', True)]\<rparr>"

definition ex_pg_foreign :: PackGenerator where
  "ex_pg_foreign = ex_pg\<lparr>Ffimp := [(''other/lib'', ''lib'')]\<rparr>"

section \<open>Pointer elision\<close>

lemma GenTypeName_elide: "GenTypeName pg (elide_pointers t) = GenTypeName pg t"
proof (induction t arbitrary: pg rule: elide_pointers.induct)
  case (3 k v)
  show ?case
    by (simp add: "3.IH" split: sum.splits)
qed simp_all

text \<open>
  C5. Pointers are elided by the type mapper at every nesting depth: mapping
  \<open>TPointer t\<close> gives the same result (text, import bookkeeping, failure) as mapping \<open>t\<close>;
  so does mapping a type with all reachable pointers removed; and a slice of pointers
  to a named type maps like the slice of the named type.
\<close>

theorem C5_pointer_elision:
  "GenTypeName pg (TPointer t) = GenTypeName pg t
   \<and> GenTypeName pg (elide_pointers t) = GenTypeName pg t
   \<and> GenTypeName pg (TSlice (TPointer (TNamed pkg x u))) = GenTypeName pg (TSlice (TNamed pkg x u))"
  by (simp add: GenTypeName_elide)

section \<open>Field flattening: properties\<close>


lemma apply_all_append:
  "apply_all act (ps @ qs) st =
     (case apply_all act ps st of Inl e \<Rightarrow> Inl e | Inr st' \<Rightarrow> apply_all act qs st')"
  by (induction ps arbitrary: st) (auto split: sum.splits)

lemma zip_append_drop:
  "zip (xs @ ys) zs = zip xs zs @ zip ys (drop (length xs) zs)"
  by (induction xs arbitrary: zs) (auto simp: zip_Cons1 split: list.splits)

lemma apply_all_record_visit: "apply_all record_visit ps seen = Inr (seen @ ps)"
  by (induction ps arbitrary: seen) (auto simp: record_visit_def)

lemma leaf_fields_append: "leaf_fields (xs @ ys) = leaf_fields xs @ leaf_fields ys"
  by (induction xs rule: leaf_fields.induct) simp_all

lemma well_embedded_append: "well_embedded (xs @ ys) = (well_embedded xs \<and> well_embedded ys)"
  by (induction xs rule: well_embedded.induct) simp_all

lemma fields_loop_Some:
  "action = Some act \<Longrightarrow> well_embedded fs \<Longrightarrow> j + length (leaf_fields fs) \<le> length opts \<Longrightarrow>
   fields_loop fs opts action j n st =
     (case apply_all act (zip (leaf_fields fs) (drop j opts)) st of
        Inl e \<Rightarrow> Inl e
      | Inr st' \<Rightarrow> Inr (n + length (leaf_fields fs), st'))"
proof (induction fs opts action j n st rule: fields_loop.induct)
  case (2 nm pkg tn embedded rest opts action j n st)
  then show ?case
    by (auto simp: apply_all_append zip_append_drop add.commute split: sum.splits)
next
  case (4 nm t rest opts action j n st)
  then show ?case
    by (auto simp: Cons_nth_drop_Suc[symmetric] split: sum.splits)
qed simp_all

lemma fields_loop_fails:
  "action = Some act \<Longrightarrow> j \<le> length opts \<Longrightarrow>
   \<not> (well_embedded fs \<and> j + length (leaf_fields fs) \<le> length opts) \<Longrightarrow>
   isl (fields_loop fs opts action j n st)"
proof (induction fs opts action j n st rule: fields_loop.induct)
  case (2 nm pkg tn embedded rest opts action j n st)
  show ?case
  proof (cases "length opts < j")
    case True
    then show ?thesis by simp
  next
    case le: False
    show ?thesis
    proof (cases "fields_loop embedded (drop j opts) action 0 0 st")
      case (Inl e)
      with le show ?thesis by simp
    next
      case (Inr r)
      obtain k st' where r: "r = (k, st')" by (cases r)
      have ok: "well_embedded embedded \<and> 0 + length (leaf_fields embedded) \<le> length (drop j opts)"
        using "2.IH"(1)[OF le "2.prems"(1)] Inr by auto
      then have jk: "j + k \<le> length opts" if "k = length (leaf_fields embedded)"
        using that le by auto
      have k: "k = length (leaf_fields embedded)"
        using fields_loop_Some[OF "2.prems"(1), of embedded 0 "drop j opts" 0 st] Inr r ok
        by (auto split: sum.splits)
      with ok "2.prems"(3) le
      have "\<not> (well_embedded rest \<and> (j + k) + length (leaf_fields rest) \<le> length opts)"
        by auto
      from "2.IH"(2)[OF le Inr r[symmetric] "2.prems"(1) jk[OF k] this]
      show ?thesis using le Inr r by simp
    qed
  qed
next
  case (4 nm t rest opts action j n st)
  then show ?case
    by (auto split: sum.splits)
qed simp_all

lemma forEachStructField_Some:
  "well_embedded fs \<Longrightarrow> length (leaf_fields fs) \<le> length opts \<Longrightarrow>
   forEachStructField fs opts (Some act) st =
     (case apply_all act (zip (leaf_fields fs) opts) st of
        Inl e \<Rightarrow> Inl e
      | Inr st' \<Rightarrow> Inr (length (leaf_fields fs), st'))"
  using fields_loop_Some[of "Some act" act fs 0 opts 0 st]
  by (simp add: forEachStructField_def split: sum.splits)

text \<open>
  The two conditions are also necessary: whatever the action does, the walk panics when
  an anonymous field is not a named struct or when the options run out.
\<close>

lemma forEachStructField_fails:
  "\<not> (well_embedded fs \<and> length (leaf_fields fs) \<le> length opts) \<Longrightarrow>
   isl (forEachStructField fs opts (Some act) st)"
  using fields_loop_fails[of "Some act" act 0 opts fs 0 st]
  by (simp add: forEachStructField_def)

lemma forEachStructField_visits:
  "well_embedded fs \<Longrightarrow> length (leaf_fields fs) \<le> length opts \<Longrightarrow>
   forEachStructField fs opts (Some record_visit) [] =
     Inr (length (leaf_fields fs), zip (leaf_fields fs) opts)"
  by (simp add: forEachStructField_Some apply_all_record_visit)

text \<open>
  C1. For a type member whose anonymous fields are all named structs and whose options
  cover its leaves: (1) the walk visits the leaf fields of the embedding tree depth-first
  and left to right, each with the option at its position, and returns their number;
  (2) any action is run over exactly that sequence, in that order; (3) around an embedded
  field, the walk is the walk of the fields before it, then the walk of the embedded
  struct on the options from the cursor on, then the walk of the fields after it on the
  options from the cursor advanced by the count the embedded walk returned; (4) a member
  without fields yields the empty sequence and the count zero.
\<close>

theorem C1_field_flattening:
  assumes wf: "well_embedded (tm_Struct t)"
    and len: "length (leaf_fields (tm_Struct t)) \<le> length (tm_PropertyOptions t)"
  shows
    "forEachField t (Some record_visit) [] =
       Inr (length (leaf_fields (tm_Struct t)), zip (leaf_fields (tm_Struct t)) (tm_PropertyOptions t))
     \<and> forEachField t (Some act) st =
         (case apply_all act (zip (leaf_fields (tm_Struct t)) (tm_PropertyOptions t)) st of
            Inl e \<Rightarrow> Inl e
          | Inr st' \<Rightarrow> Inr (length (leaf_fields (tm_Struct t)), st'))
     \<and> (\<forall>pre nm pkg tn embedded post.
          tm_Struct t = pre @ Var nm True (TNamed pkg tn (TStruct embedded)) # post \<longrightarrow>
          (\<exists>a b c xs ys zs.
             forEachStructField pre (tm_PropertyOptions t) (Some record_visit) [] = Inr (a, xs)
           \<and> forEachStructField embedded (drop a (tm_PropertyOptions t)) (Some record_visit) [] = Inr (b, ys)
           \<and> forEachStructField post (drop (a + b) (tm_PropertyOptions t)) (Some record_visit) [] = Inr (c, zs)
           \<and> forEachField t (Some record_visit) [] = Inr (a + b + c, xs @ ys @ zs)))
     \<and> (tm_Struct t = [] \<longrightarrow> forEachField t (Some record_visit) [] = Inr (0, []))"
proof (intro conjI allI impI)
  show visits: "forEachField t (Some record_visit) [] =
       Inr (length (leaf_fields (tm_Struct t)), zip (leaf_fields (tm_Struct t)) (tm_PropertyOptions t))"
    using wf len by (simp add: forEachField_def forEachStructField_visits)
  show "forEachField t (Some act) st =
         (case apply_all act (zip (leaf_fields (tm_Struct t)) (tm_PropertyOptions t)) st of
            Inl e \<Rightarrow> Inl e
          | Inr st' \<Rightarrow> Inr (length (leaf_fields (tm_Struct t)), st'))"
    using wf len by (simp add: forEachField_def forEachStructField_Some)
  show "forEachField t (Some record_visit) [] = Inr (0, [])" if "tm_Struct t = []"
    using that by (simp add: forEachField_def forEachStructField_def)
next
  fix pre nm pkg tn embedded post
  assume split: "tm_Struct t = pre @ Var nm True (TNamed pkg tn (TStruct embedded)) # post"
  let ?opts = "tm_PropertyOptions t"
  let ?a = "length (leaf_fields pre)" and ?b = "length (leaf_fields embedded)"
    and ?c = "length (leaf_fields post)"
  have leaves: "leaf_fields (tm_Struct t) = leaf_fields pre @ leaf_fields embedded @ leaf_fields post"
    by (simp add: split leaf_fields_append)
  have wfs: "well_embedded pre" "well_embedded embedded" "well_embedded post"
    using wf by (simp_all add: split well_embedded_append)
  have lens: "?a + ?b + ?c \<le> length ?opts"
    using len by (simp add: leaves)
  have 1: "forEachStructField pre ?opts (Some record_visit) [] = Inr (?a, zip (leaf_fields pre) ?opts)"
    using wfs lens by (simp add: forEachStructField_visits)
  have 2: "forEachStructField embedded (drop ?a ?opts) (Some record_visit) [] =
             Inr (?b, zip (leaf_fields embedded) (drop ?a ?opts))"
    using wfs lens by (simp add: forEachStructField_visits)
  have 3: "forEachStructField post (drop (?a + ?b) ?opts) (Some record_visit) [] =
             Inr (?c, zip (leaf_fields post) (drop (?a + ?b) ?opts))"
    using wfs lens by (simp add: forEachStructField_visits)
  have 4: "forEachField t (Some record_visit) [] =
             Inr (?a + ?b + ?c, zip (leaf_fields pre) ?opts @ zip (leaf_fields embedded) (drop ?a ?opts)
                   @ zip (leaf_fields post) (drop (?a + ?b) ?opts))"
    using wf len
    by (simp add: forEachField_def forEachStructField_visits leaves zip_append_drop add.commute)
  from 1 2 3 4
  show "\<exists>a b c xs ys zs.
             forEachStructField pre (tm_PropertyOptions t) (Some record_visit) [] = Inr (a, xs)
           \<and> forEachStructField embedded (drop a (tm_PropertyOptions t)) (Some record_visit) [] = Inr (b, ys)
           \<and> forEachStructField post (drop (a + b) (tm_PropertyOptions t)) (Some record_visit) [] = Inr (c, zs)
           \<and> forEachField t (Some record_visit) [] = Inr (a + b + c, xs @ ys @ zs)"
    by blast
qed

theorem C1_field_flattening_witness:
  "well_embedded (tm_Struct ex_nested)
   \<and> length (leaf_fields (tm_Struct ex_nested)) \<le> length (tm_PropertyOptions ex_nested)
   \<and> forEachField ex_nested (Some record_visit) [] =
       Inr (4, [(Var ''a'' False (TBasic String), ex_opt ''a''),
                (Var ''b'' False (TBasic Bool), ex_opt ''b''),
                (Var ''c'' False (TBasic String), ex_opt ''c''),
                (Var ''d'' False (TBasic Float64), ex_opt ''d'')])"
proof -
  have wf: "well_embedded (tm_Struct ex_nested)"
    by (simp add: ex_nested_def ex_middle_def ex_inner_def)
  have len: "length (leaf_fields (tm_Struct ex_nested)) \<le> length (tm_PropertyOptions ex_nested)"
    by (simp add: ex_nested_def ex_middle_def ex_inner_def)
  from C1_field_flattening[OF wf len, of record_visit "[]"]
  have "forEachField ex_nested (Some record_visit) [] =
       Inr (length (leaf_fields (tm_Struct ex_nested)),
            zip (leaf_fields (tm_Struct ex_nested)) (tm_PropertyOptions ex_nested))"
    by blast
  then show ?thesis
    using wf len by (simp add: ex_nested_def ex_middle_def ex_inner_def)
qed

section \<open>The emitters: properties\<close>

lemma enum_values_loop_pos:
  "0 < i \<Longrightarrow> enum_values_loop vs i w = w @ concat (map (\<lambda>v. '' |'' @ NL @ ''    '' @ v) vs)"
  by (induction vs arbitrary: i w) (simp_all add: writefmt_def)

lemma union_lines_Cons:
  "union_lines (v # vs) = ''    '' @ v @ concat (map (\<lambda>v. '' |'' @ NL @ ''    '' @ v) vs)"
  by (induction vs arbitrary: v) simp_all

lemma enum_values_loop_union: "enum_values_loop vs 0 w = w @ union_lines vs"
proof (cases vs)
  case Nil
  then show ?thesis by simp
next
  case (Cons v vs')
  then show ?thesis
    by (simp add: enum_values_loop_pos union_lines_Cons writefmt_def)
qed

lemma EmitEnum_text:
  "EmitEnum w name vals =
     (if vals = [] then Inl AssertFailed
      else Inr (w @ ''export type '' @ name @ '' ='' @ NL @ union_lines vals @ '';'' @ NL))"
  by (simp add: EmitEnum_def contract_Assert_def enum_values_loop_union writefmt_def)

lemma class_field_action_step:
  "class_field_action fld opt (w, pg) =
     (case GenTypeName pg (var_Type fld) of
        Inl e \<Rightarrow> Inl e
      | Inr (ty, pg') \<Rightarrow> Inr (w @ property_line ''    public '' opt ty, pg'))"
  by (simp add: class_field_action_def emitField_def writefmt_def property_line_def Let_def
      split: sum.splits)

lemma constructor_action_step:
  "constructor_action fld opt (w, pg) =
     Inr (w @ (if Out opt then [] else constructor_lines opt), pg)"
  by (simp add: constructor_action_def writefmt_def constructor_lines_def guard_lines_def
      assign_line_def Let_def)

lemma apply_all_class_fields:
  "apply_all class_field_action ps (w, pg) =
     (case property_lines pg ''    public '' ps of
        Inl e \<Rightarrow> Inl e
      | Inr (out, pg') \<Rightarrow> Inr (w @ out, pg'))"
proof (induction ps arbitrary: w pg)
  case Nil
  show ?case by simp
next
  case (Cons p ps)
  obtain fld opt where p: "p = (fld, opt)" by (cases p)
  show ?case
    by (simp add: p class_field_action_step Cons.IH split: sum.splits prod.splits)
qed

lemma apply_all_constructor:
  "apply_all constructor_action ps (w, pg) =
     Inr (w @ concat (map constructor_lines (filter (\<lambda>opt. \<not> Out opt) (map snd ps))), pg)"
proof (induction ps arbitrary: w)
  case Nil
  show ?case by simp
next
  case (Cons p ps)
  obtain fld opt where p: "p = (fld, opt)" by (cases p)
  show ?case
    by (simp add: p constructor_action_step Cons.IH)
qed

lemma emitResourceClass_text:
  assumes wf: "well_embedded (tm_Struct res)"
    and len: "length (leaf_fields (tm_Struct res)) \<le> length (tm_PropertyOptions res)"
  shows "emitResourceClass pg w res =
     (case property_lines pg ''    public '' (flattened res) of
        Inl e \<Rightarrow> Inl e
      | Inr (props, pg') \<Rightarrow>
          Inr (w @ class_header (tm_Name res) @ props @ (if flattened res = [] then [] else NL)
                 @ constructor_text (tm_Name res) (map snd (flattened res)) @ ''}'' @ NL, pg'))"
proof -
  have n: "length (leaf_fields (tm_Struct res)) = length (flattened res)"
    using len by (simp add: flattened_def)
  show ?thesis
    unfolding emitResourceClass_def forEachField_def Let_def
      forEachStructField_Some[OF wf len] flattened_def[symmetric] n
    by (simp add: apply_all_class_fields apply_all_constructor writefmt_def class_header_def
        constructor_text_def split: sum.splits prod.splits)
qed

lemma emitResourceClass_fails:
  assumes "\<not> (well_embedded (tm_Struct res) \<and> length (leaf_fields (tm_Struct res)) \<le> length (tm_PropertyOptions res))"
  shows "isl (emitResourceClass pg w res)"
proof -
  obtain e where "forEachStructField (tm_Struct res) (tm_PropertyOptions res) (Some class_field_action)
      (writefmt w (''export class '' @ tm_Name res @ '' extends coconut.Resource implements ''
                             @ tm_Name res @ ''Args {'' @ NL), pg) = Inl e"
    using forEachStructField_fails[OF assms, of class_field_action] by (auto simp: isl_def)
  then show ?thesis
    by (simp add: emitResourceClass_def forEachField_def Let_def)
qed


lemma ex_class_text:
  "emitResourceClass ex_pg [] ex_resource =
     Inr (ex_class_head @ ''    public c: string;'' @ NL @ ex_class_tail, ex_pg)"
  by (simp add: emitResourceClass_def forEachField_def forEachStructField_def ex_resource_def
      opt_a_def opt_b_def opt_c_def class_field_action_def constructor_action_def emitField_def
      writefmt_def ex_class_head_def ex_class_tail_def Let_def)


lemma constructor_lines_fun:
  "constructor_lines =
     (\<lambda>opt. (if Optional opt then [] else guard_lines (Name opt)) @ assign_line (Name opt))"
  by (rule ext) (simp add: constructor_lines_def)

lemma property_lines_member:
  "property_lines pg prefix ps = Inr (out, pg1) \<Longrightarrow> (fld, opt) \<in> set ps \<Longrightarrow>
   \<exists>pgA ty pgB before after.
     GenTypeName pgA (var_Type fld) = Inr (ty, pgB) \<and> out = before @ property_line prefix opt ty @ after"
proof (induction ps arbitrary: pg out)
  case Nil
  then show ?case by simp
next
  case (Cons p ps)
  obtain f0 o0 where p: "p = (f0, o0)" by (cases p)
  from Cons.prems(1) obtain typ0 pg0 rest where
    g: "GenTypeName pg (var_Type f0) = Inr (typ0, pg0)" and
    r: "property_lines pg0 prefix ps = Inr (rest, pg1)" and
    t: "out = property_line prefix o0 typ0 @ rest"
    by (auto simp: p split: sum.splits prod.splits)
  show ?case
  proof (cases "(fld, opt) = (f0, o0)")
    case True
    with g t have "GenTypeName pg (var_Type fld) = Inr (typ0, pg0) \<and>
        out = [] @ property_line prefix opt typ0 @ rest" by simp
    then show ?thesis by blast
  next
    case False
    with Cons.prems(2) p have "(fld, opt) \<in> set ps" by auto
    from Cons.IH[OF r this] obtain pgA ty pgB before after where
      "GenTypeName pgA (var_Type fld) = Inr (ty, pgB)"
      "rest = before @ property_line prefix opt ty @ after" by blast
    with t have "GenTypeName pgA (var_Type fld) = Inr (ty, pgB) \<and>
        out = (property_line prefix o0 typ0 @ before) @ property_line prefix opt ty @ after" by simp
    then show ?thesis by blast
  qed
qed

lemma emitResourceClass_Inr:
  assumes "emitResourceClass pg w res = Inr (w', pg')"
  shows "\<exists>props.
     property_lines pg ''    public '' (flattened res) = Inr (props, pg')
     \<and> w' = w @ class_header (tm_Name res) @ props @ (if flattened res = [] then [] else NL)
            @ constructor_text (tm_Name res) (map snd (flattened res)) @ ''}'' @ NL"
proof -
  have ok: "well_embedded (tm_Struct res) \<and>
      length (leaf_fields (tm_Struct res)) \<le> length (tm_PropertyOptions res)"
    using emitResourceClass_fails[of res pg w] assms by auto
  then show ?thesis
    using assms emitResourceClass_text[of res pg w]
    by (auto split: sum.splits)
qed

text \<open>
  C2. When the class of a resource is emitted, its text ends with the constructor: the
  opening lines, then for the flattened fields in order, those marked Out left out, the
  guard throwing "Missing required argument" when the field is not Optional followed by
  the assignment of the argument property to the instance property, then the closing
  lines. A field marked Out contributes nothing to the constructor.
\<close>

theorem C2_resource_constructor:
  assumes "emitResourceClass pg w res = Inr (w', pg')"
  shows "\<exists>properties.
     w' = w @ class_header (tm_Name res) @ properties
            @ ''    constructor(args: '' @ tm_Name res @ ''Args) {'' @ NL
            @ ''        super();'' @ NL
            @ concat (map (\<lambda>opt. (if Optional opt then [] else guard_lines (Name opt))
                                  @ assign_line (Name opt))
                        (filter (\<lambda>opt. \<not> Out opt) (map snd (flattened res))))
            @ ''    }'' @ NL @ ''}'' @ NL"
proof -
  from emitResourceClass_Inr[OF assms] obtain props where
    "w' = w @ class_header (tm_Name res) @ props @ (if flattened res = [] then [] else NL)
            @ constructor_text (tm_Name res) (map snd (flattened res)) @ ''}'' @ NL"
    by blast
  then have "w' = w @ class_header (tm_Name res) @ (props @ (if flattened res = [] then [] else NL))
            @ ''    constructor(args: '' @ tm_Name res @ ''Args) {'' @ NL
            @ ''        super();'' @ NL
            @ concat (map (\<lambda>opt. (if Optional opt then [] else guard_lines (Name opt))
                                  @ assign_line (Name opt))
                        (filter (\<lambda>opt. \<not> Out opt) (map snd (flattened res))))
            @ ''    }'' @ NL @ ''}'' @ NL"
    by (simp add: constructor_text_def constructor_lines_fun)
  then show ?thesis by blast
qed

theorem C2_resource_constructor_witness:
  "emitResourceClass ex_pg [] ex_resource =
     Inr (ex_class_head @ ''    public c: string;'' @ NL @ ex_class_tail, ex_pg)
   \<and> (\<exists>properties.
        ex_class_head @ ''    public c: string;'' @ NL @ ex_class_tail =
          class_header ''Bucket'' @ properties
            @ ''    constructor(args: BucketArgs) {'' @ NL
            @ ''        super();'' @ NL
            @ guard_lines ''a'' @ assign_line ''a'' @ assign_line ''b''
            @ ''    }'' @ NL @ ''}'' @ NL)"
proof -
  have run: "emitResourceClass ex_pg [] ex_resource =
     Inr (ex_class_head @ ''    public c: string;'' @ NL @ ex_class_tail, ex_pg)"
    by (rule ex_class_text)
  have flat: "map snd (flattened ex_resource) = [opt_a, opt_b, opt_c]"
    by (simp add: flattened_def ex_resource_def)
  from C2_resource_constructor[OF run] show ?thesis
    using run unfolding flat
    by (simp add: ex_resource_def opt_a_def opt_b_def opt_c_def)
qed

text \<open>
  C3, as the code has it. When the class of a resource is emitted, its property section
  has one public property line for every flattened field, in order, whether or not the
  field is marked Out: the line carries \<open>readonly\<close> exactly when Replaces is set and the
  question mark exactly when Optional is set. (Fields marked Out are left out of the
  constructor and of the Args interface only.)
\<close>

theorem C3_class_properties:
  assumes "emitResourceClass pg w res = Inr (w', pg')"
  shows "\<exists>props rest.
     property_lines pg ''    public '' (flattened res) = Inr (props, pg')
     \<and> w' = w @ class_header (tm_Name res) @ props @ rest
     \<and> (\<forall>(fld, opt) \<in> set (flattened res).
          \<exists>pgA ty pgB before after.
            GenTypeName pgA (var_Type fld) = Inr (ty, pgB)
            \<and> props = before @ ''    public '' @ (if Replaces opt then ''readonly '' else [])
                         @ Name opt @ (if Optional opt then ''?'' else []) @ '': '' @ ty @ '';'' @ NL
                         @ after)"
proof -
  from emitResourceClass_Inr[OF assms] obtain props where
    p: "property_lines pg ''    public '' (flattened res) = Inr (props, pg')" and
    w: "w' = w @ class_header (tm_Name res) @ props @ (if flattened res = [] then [] else NL)
            @ constructor_text (tm_Name res) (map snd (flattened res)) @ ''}'' @ NL"
    by blast
  have "\<forall>(fld, opt) \<in> set (flattened res).
          \<exists>pgA ty pgB before after.
            GenTypeName pgA (var_Type fld) = Inr (ty, pgB)
            \<and> props = before @ ''    public '' @ (if Replaces opt then ''readonly '' else [])
                         @ Name opt @ (if Optional opt then ''?'' else []) @ '': '' @ ty @ '';'' @ NL
                         @ after"
    using property_lines_member[OF p] by (fastforce simp: property_line_def)
  with p w show ?thesis by blast
qed

theorem C3_class_properties_witness:
  "emitResourceClass ex_pg [] ex_resource =
     Inr (ex_class_head @ ''    public c: string;'' @ NL @ ex_class_tail, ex_pg)
   \<and> property_lines ex_pg ''    public '' (flattened ex_resource) =
       Inr (''    public a: string;'' @ NL @ ''    public readonly b?: string;'' @ NL
            @ ''    public c: string;'' @ NL, ex_pg)"
proof -
  have run: "emitResourceClass ex_pg [] ex_resource =
     Inr (ex_class_head @ ''    public c: string;'' @ NL @ ex_class_tail, ex_pg)"
    by (rule ex_class_text)
  from C3_class_properties[OF run] obtain props where
    "property_lines ex_pg ''    public '' (flattened ex_resource) = Inr (props, ex_pg)" by blast
  moreover have "property_lines ex_pg ''    public '' (flattened ex_resource) =
       Inr (''    public a: string;'' @ NL @ ''    public readonly b?: string;'' @ NL
            @ ''    public c: string;'' @ NL, ex_pg)"
    by (simp add: flattened_def ex_resource_def property_line_def opt_a_def opt_b_def opt_c_def)
  ultimately show ?thesis using run by simp
qed

text \<open>
  The claim C3 as stated fails: field \<open>c\<close> of the example is marked Out, and the class
  text has the property line of \<open>c\<close> all the same.
\<close>

theorem C3_out_field_counterexample:
  "Out opt_c
   \<and> tm_PropertyOptions ex_resource ! 2 = opt_c
   \<and> emitResourceClass ex_pg [] ex_resource =
       Inr (ex_class_head @ ''    public c: string;'' @ NL @ ex_class_tail, ex_pg)
   \<and> emitResourceClass ex_pg [] ex_resource \<noteq> Inr (ex_class_head @ ex_class_tail, ex_pg)"
  by (simp add: ex_class_text) (simp add: opt_c_def ex_resource_def)

text \<open>
  C4, as the code has it. Emitting an enum without values fails on the assertion. With
  values, the text is the line \<open>export type Name =\<close>, then the values, each after four
  spaces and written as it is stored (the emitter adds no quotes), joined by the union
  bar at the end of the line, then a semicolon. The body with quoted values is what the
  enum \<open>Color\<close> gives when its stored values are the string literals themselves.
\<close>

theorem C4_enum_text:
  "EmitEnum w name vals =
     (if vals = [] then Inl AssertFailed
      else Inr (w @ ''export type '' @ name @ '' ='' @ NL @ union_lines vals @ '';'' @ NL))
   \<and> EmitEnum [] ''Color'' [quoted ''Red'', quoted ''Green'', quoted ''Blue''] =
       Inr (''export type Color ='' @ NL
            @ ''    '' @ DQ @ ''Red'' @ DQ @ '' |'' @ NL
            @ ''    '' @ DQ @ ''Green'' @ DQ @ '' |'' @ NL
            @ ''    '' @ DQ @ ''Blue'' @ DQ @ '';'' @ NL)"
  by (simp add: EmitEnum_text quoted_def)

text \<open>
  The claim C4 as stated fails: for the values \<open>Red\<close>, \<open>Green\<close>, \<open>Blue\<close> the emitted body
  has no quotes, so it is not the body the claim gives.
\<close>

theorem C4_enum_quoting_counterexample:
  "EmitEnum [] ''Color'' [''Red'', ''Green'', ''Blue''] =
     Inr (''export type Color ='' @ NL
          @ ''    Red |'' @ NL
          @ ''    Green |'' @ NL
          @ ''    Blue;'' @ NL)
   \<and> EmitEnum [] ''Color'' [''Red'', ''Green'', ''Blue''] \<noteq>
       Inr (''export type Color ='' @ NL
            @ ''    '' @ DQ @ ''Red'' @ DQ @ '' |'' @ NL
            @ ''    '' @ DQ @ ''Green'' @ DQ @ '' |'' @ NL
            @ ''    '' @ DQ @ ''Blue'' @ DQ @ '';'' @ NL)"
  by (simp add: EmitEnum_text)

section \<open>The type mapper: idempotence\<close>

lemma extends_refl: "extends pg pg"
  by (simp add: extends_def)

lemma extends_trans: "extends a b \<Longrightarrow> extends b c \<Longrightarrow> extends a c"
  by (auto simp: extends_def intro: map_le_trans)

lemma same_refs:
  "Currpkg pg' = Currpkg pg \<Longrightarrow> Currfile pg' = Currfile pg \<Longrightarrow>
   local_refs pg' t = local_refs pg t \<and> foreign_refs pg' t = foreign_refs pg t"
  by (induction t rule: elide_pointers.induct) simp_all

lemma registerForeign_Inr:
  assumes "registerForeign pg pkg = Inr (impname, pg1)"
  shows "\<exists>p. pkg = Some p \<and> map_of (Ffimp pg1) (pkg_Path p) = Some impname
     \<and> Flimp pg1 = Flimp pg \<and> Currpkg pg1 = Currpkg pg \<and> Currfile pg1 = Currfile pg
     \<and> map_of (Ffimp pg) \<subseteq>\<^sub>m map_of (Ffimp pg1)
     \<and> fst ` set (Ffimp pg1) = fst ` set (Ffimp pg) \<union> {pkg_Path p}
     \<and> (distinct (map fst (Ffimp pg)) \<longrightarrow> distinct (map fst (Ffimp pg1)))"
proof (cases pkg)
  case None
  with assms show ?thesis by (simp add: registerForeign_def)
next
  case (Some p)
  show ?thesis
  proof (cases "map_of (Ffimp pg) (pkg_Path p)")
    case None
    with assms Some have pg1: "impname = pkg_Name p"
      "pg1 = pg\<lparr>Ffimp := AList.update (pkg_Path p) (pkg_Name p) (Ffimp pg)\<rparr>"
      by (auto simp: registerForeign_def)
    have "map_of (Ffimp pg) \<subseteq>\<^sub>m map_of (Ffimp pg1)"
      using None by (simp add: pg1 update_conv' map_le_def dom_def)
    moreover have "fst ` set (Ffimp pg1) = fst ` set (Ffimp pg) \<union> {pkg_Path p}"
      by (simp add: pg1 dom_update)
    ultimately show ?thesis
      using Some by (simp add: pg1 update_conv' distinct_update)
  next
    case Some2: (Some i)
    then have "pkg_Path p \<in> fst ` set (Ffimp pg)"
      using map_of_eq_None_iff[of "Ffimp pg" "pkg_Path p"] by auto
    with assms Some Some2 show ?thesis
      by (auto simp: registerForeign_def)
  qed
qed

lemma registerForeign_stable:
  assumes "map_of (Ffimp pg2) (pkg_Path p) = Some impname"
  shows "registerForeign pg2 (Some p) = Inr (impname, pg2)"
  using assms by (simp add: registerForeign_def)

lemma GenTypeName_grows:
  "GenTypeName pg t = Inr (out, pg1) \<Longrightarrow>
   extends pg pg1
   \<and> fst ` set (Flimp pg1) = fst ` set (Flimp pg) \<union> local_refs pg t
   \<and> fst ` set (Ffimp pg1) = fst ` set (Ffimp pg) \<union> foreign_refs pg t
   \<and> (distinct (map fst (Flimp pg)) \<longrightarrow> distinct (map fst (Flimp pg1)))
   \<and> (distinct (map fst (Ffimp pg)) \<longrightarrow> distinct (map fst (Ffimp pg1)))"
proof (induction pg t arbitrary: out pg1 rule: GenTypeName.induct)
  case (5 pg pkg name u)
  show ?case
  proof (cases "same_package pkg (Pkginfo_Pkg (Currpkg pg))")
    case True
    show ?thesis
    proof (cases "MemberFiles (Currpkg pg) name = Some (Currfile pg)")
      case same: True
      with True "5.prems" show ?thesis
        by (auto simp: extends_refl)
    next
      case other: False
      with True "5.prems" have pg1: "pg1 = pg\<lparr>Flimp := AList.update name True (Flimp pg)\<rparr>"
        by (auto split: option.splits if_splits)
      have "fst ` set (Flimp pg1) = fst ` set (Flimp pg) \<union> {name}"
        by (simp add: pg1 dom_update)
      then show ?thesis
        using True other by (simp add: pg1 extends_def update_conv' distinct_update)
    qed
  next
    case False
    with "5.prems" obtain impname where r: "registerForeign pg pkg = Inr (impname, pg1)"
      by (auto split: sum.splits)
    from registerForeign_Inr[OF r] obtain p where p: "pkg = Some p"
      "Flimp pg1 = Flimp pg" "Currpkg pg1 = Currpkg pg" "Currfile pg1 = Currfile pg"
      "map_of (Ffimp pg) \<subseteq>\<^sub>m map_of (Ffimp pg1)"
      "fst ` set (Ffimp pg1) = fst ` set (Ffimp pg) \<union> {pkg_Path p}"
      "distinct (map fst (Ffimp pg)) \<longrightarrow> distinct (map fst (Ffimp pg1))"
      by blast
    with False show ?thesis
      by (simp add: extends_def)
  qed
next
  case (6 pg k v)
  from "6.prems" obtain kt pga vt where
    a: "GenTypeName pg k = Inr (kt, pga)" and b: "GenTypeName pga v = Inr (vt, pg1)"
    by (auto split: sum.splits)
  note A = "6.IH"(1)[OF a]
  note B = "6.IH"(2)[OF a refl b]
  have ctx: "Currpkg pga = Currpkg pg" "Currfile pga = Currfile pg"
    using A by (simp_all add: extends_def)
  have refs: "local_refs pga v = local_refs pg v" "foreign_refs pga v = foreign_refs pg v"
    using same_refs[OF ctx] by simp_all
  from A have A1: "extends pg pga"
    and A2: "fst ` set (Flimp pga) = fst ` set (Flimp pg) \<union> local_refs pg k"
    and A3: "fst ` set (Ffimp pga) = fst ` set (Ffimp pg) \<union> foreign_refs pg k"
    and A4: "distinct (map fst (Flimp pg)) \<longrightarrow> distinct (map fst (Flimp pga))"
    and A5: "distinct (map fst (Ffimp pg)) \<longrightarrow> distinct (map fst (Ffimp pga))"
    by blast+
  from B have B1: "extends pga pg1"
    and B2: "fst ` set (Flimp pg1) = fst ` set (Flimp pga) \<union> local_refs pg v"
    and B3: "fst ` set (Ffimp pg1) = fst ` set (Ffimp pga) \<union> foreign_refs pg v"
    and B4: "distinct (map fst (Flimp pga)) \<longrightarrow> distinct (map fst (Flimp pg1))"
    and B5: "distinct (map fst (Ffimp pga)) \<longrightarrow> distinct (map fst (Ffimp pg1))"
    unfolding refs by blast+
  show ?case
  proof (intro conjI)
    show "extends pg pg1" using A1 B1 by (rule extends_trans)
    show "fst ` set (Flimp pg1) = fst ` set (Flimp pg) \<union> local_refs pg (TMap k v)"
      unfolding B2 A2 by (simp add: Un_assoc)
    show "fst ` set (Ffimp pg1) = fst ` set (Ffimp pg) \<union> foreign_refs pg (TMap k v)"
      unfolding B3 A3 by (simp add: Un_assoc)
    show "distinct (map fst (Flimp pg)) \<longrightarrow> distinct (map fst (Flimp pg1))"
      using A4 B4 by blast
    show "distinct (map fst (Ffimp pg)) \<longrightarrow> distinct (map fst (Ffimp pg1))"
      using A5 B5 by blast
  qed
next
  case (7 pg t)
  then show ?case by simp
next
  case (8 pg t)
  from "8.prems" obtain tt where "GenTypeName pg t = Inr (tt, pg1)"
    by (auto split: sum.splits)
  from "8.IH"[OF this] show ?case by simp
qed (simp_all add: extends_refl contract_Failf_def)

lemma GenTypeName_stable:
  "GenTypeName pg t = Inr (out, pg1) \<Longrightarrow> extends pg1 pg2 \<Longrightarrow> GenTypeName pg2 t = Inr (out, pg2)"
proof (induction pg t arbitrary: out pg1 pg2 rule: GenTypeName.induct)
  case (5 pg pkg name u)
  have ctx: "Currpkg pg2 = Currpkg pg" "Currfile pg2 = Currfile pg"
    using GenTypeName_grows[OF "5.prems"(1)] "5.prems"(2) by (simp_all add: extends_def)
  show ?case
  proof (cases "same_package pkg (Pkginfo_Pkg (Currpkg pg))")
    case True
    show ?thesis
    proof (cases "MemberFiles (Currpkg pg) name")
      case None
      with True "5.prems" show ?thesis by simp
    next
      case (Some path)
      show ?thesis
      proof (cases "path = Currfile pg")
        case True
        with \<open>same_package pkg (Pkginfo_Pkg (Currpkg pg))\<close> Some "5.prems" ctx
        show ?thesis by auto
      next
        case False
        with True Some "5.prems"(1)
        have "out = name" "map_of (Flimp pg1) name = Some True"
          by (auto simp: update_conv')
        with "5.prems"(2) have "map_of (Flimp pg2) name = Some True"
          by (simp add: extends_def)
        then have "AList.update name True (Flimp pg2) = Flimp pg2"
          by (rule update_triv)
        with True Some False ctx \<open>out = name\<close> show ?thesis by simp
      qed
    qed
  next
    case False
    with "5.prems" obtain impname where r: "registerForeign pg pkg = Inr (impname, pg1)"
      and o: "out = impname @ ''.'' @ name"
      by (auto split: sum.splits)
    from registerForeign_Inr[OF r] obtain p where
      p: "pkg = Some p" "map_of (Ffimp pg1) (pkg_Path p) = Some impname" by blast
    with "5.prems"(2) have "map_of (Ffimp pg2) (pkg_Path p) = Some impname"
      by (auto simp: extends_def map_le_def dom_def)
    from registerForeign_stable[OF this] False ctx p o show ?thesis by simp
  qed
next
  case (6 pg k v)
  from "6.prems" obtain kt pga vt where
    a: "GenTypeName pg k = Inr (kt, pga)" and b: "GenTypeName pga v = Inr (vt, pg1)"
    and o: "out = ''{[key: '' @ kt @ '']: '' @ vt @ ''}''"
    by (auto split: sum.splits)
  have "extends pga pg1" using GenTypeName_grows[OF b] by simp
  then have "extends pga pg2" using "6.prems"(2) by (rule extends_trans)
  from "6.IH"(1)[OF a this] "6.IH"(2)[OF a refl b "6.prems"(2)] o
  show ?case by simp
qed (auto simp: contract_Failf_def split: sum.splits)


text \<open>
  C6. When the mapper succeeds on a type, mapping the same type again in the resulting
  file context gives the same text and leaves the generator, import maps included, as
  it is; the keys of the local import map are then the earlier keys and the names of
  the members of the current package the type refers to in another file, the keys of
  the foreign import map the earlier keys and the paths of the foreign packages the
  type refers to; and maps with one entry per key keep one entry per key.
\<close>

theorem C6_mapper_idempotent:
  assumes "GenTypeName pg t = Inr (out, pg1)"
  shows "GenTypeName pg1 t = Inr (out, pg1)
     \<and> fst ` set (Flimp pg1) = fst ` set (Flimp pg) \<union> local_refs pg t
     \<and> fst ` set (Ffimp pg1) = fst ` set (Ffimp pg) \<union> foreign_refs pg t
     \<and> (distinct (map fst (Flimp pg)) \<longrightarrow> distinct (map fst (Flimp pg1)))
     \<and> (distinct (map fst (Ffimp pg)) \<longrightarrow> distinct (map fst (Ffimp pg1)))"
  using GenTypeName_stable[OF assms extends_refl] GenTypeName_grows[OF assms]
  by blast

theorem C6_mapper_idempotent_witness:
  "GenTypeName ex_pg ex_type = Inr (''{[key: Y]: lib.Z[]}'', ex_pg_after)
   \<and> GenTypeName ex_pg_after ex_type = Inr (''{[key: Y]: lib.Z[]}'', ex_pg_after)
   \<and> Flimp ex_pg_after = [(''Y'', True)]
   \<and> Ffimp ex_pg_after = [(''other/lib'', ''lib'')]"
proof -
  have run: "GenTypeName ex_pg ex_type = Inr (''{[key: Y]: lib.Z[]}'', ex_pg_after)"
    by (simp add: ex_type_def ex_pg_def ex_pg_after_def ex_pkg_def ex_foreign_def
        same_package_def registerForeign_def)
  from C6_mapper_idempotent[OF run] show ?thesis
    using run by (simp add: ex_pg_after_def)
qed

section \<open>The file body: grouping\<close>

lemma prepend_simps:
  "prepend w (Inl e) = Inl e"
  "prepend w (Inr (out, pg)) = Inr (w @ out, pg)"
  "prepend_counted w (Inl e) = Inl e"
  "prepend_counted w (Inr (k, (out, pg))) = Inr (k, (w @ out, pg))"
  by (simp_all add: prepend_def prepend_counted_def)

lemma fields_loop_appends:
  assumes app: "\<And>fld opt w pg. act fld opt (w, pg) = prepend w (act fld opt ([], pg))"
  shows "fields_loop fs opts (Some act) j n (w, pg) =
           prepend_counted w (fields_loop fs opts (Some act) j n ([], pg))"
proof (induction fs arbitrary: opts j n w pg rule: well_embedded.induct)
  case 1
  show ?case by (simp add: prepend_simps)
next
  case (2 nm pkg tn embedded rest)
  show ?case
  proof (cases "length opts < j")
    case True
    then show ?thesis by (simp add: prepend_simps)
  next
    case False
    show ?thesis
    proof (cases "fields_loop embedded (drop j opts) (Some act) 0 0 ([], pg)")
      case (Inl e)
      with False "2.IH"(1)[of "drop j opts" 0 0 w pg] show ?thesis
        by (simp add: prepend_simps)
    next
      case (Inr r)
      obtain k out1 pg1 where r: "r = (k, (out1, pg1))" by (cases r) auto
      have inner: "fields_loop embedded (drop j opts) (Some act) 0 0 (w, pg) = Inr (k, (w @ out1, pg1))"
        using "2.IH"(1)[of "drop j opts" 0 0 w pg] Inr r by (simp add: prepend_simps)
      have "fields_loop rest opts (Some act) (j + k) (n + k) (w @ out1, pg1) =
              prepend_counted (w @ out1) (fields_loop rest opts (Some act) (j + k) (n + k) ([], pg1))"
        by (rule "2.IH"(2))
      moreover have "fields_loop rest opts (Some act) (j + k) (n + k) (out1, pg1) =
              prepend_counted out1 (fields_loop rest opts (Some act) (j + k) (n + k) ([], pg1))"
        by (rule "2.IH"(2))
      ultimately show ?thesis
        using False Inr r inner
        by (cases "fields_loop rest opts (Some act) (j + k) (n + k) ([], pg1)")
           (auto simp: prepend_simps)
    qed
  qed
next
  case (4 nm t rest)
  show ?case
  proof (cases "j < length opts")
    case False
    then show ?thesis by (simp add: prepend_simps)
  next
    case True
    show ?thesis
    proof (cases "act (Var nm False t) (opts ! j) ([], pg)")
      case (Inl e)
      with True app[of "Var nm False t" "opts ! j" w pg] show ?thesis
        by (simp add: prepend_simps)
    next
      case (Inr r)
      obtain out1 pg1 where r: "r = (out1, pg1)" by (cases r)
      have step: "act (Var nm False t) (opts ! j) (w, pg) = Inr (w @ out1, pg1)"
        using app[of "Var nm False t" "opts ! j" w pg] Inr r by (simp add: prepend_simps)
      have "fields_loop rest opts (Some act) (j + 1) (n + 1) (w @ out1, pg1) =
              prepend_counted (w @ out1) (fields_loop rest opts (Some act) (j + 1) (n + 1) ([], pg1))"
        by (rule "4.IH")
      moreover have "fields_loop rest opts (Some act) (j + 1) (n + 1) (out1, pg1) =
              prepend_counted out1 (fields_loop rest opts (Some act) (j + 1) (n + 1) ([], pg1))"
        by (rule "4.IH")
      ultimately show ?thesis
        using True Inr r step
        by (cases "fields_loop rest opts (Some act) (j + 1) (n + 1) ([], pg1)")
           (auto simp: prepend_simps)
    qed
  qed
qed (simp_all add: prepend_simps)

lemma forEachField_appends:
  assumes app: "\<And>fld opt w pg. act fld opt (w, pg) = prepend w (act fld opt ([], pg))"
  shows "forEachField t (Some act) (w, pg) = prepend_counted w (forEachField t (Some act) ([], pg))"
  unfolding forEachField_def forEachStructField_def
  by (rule fields_loop_appends[OF app])

lemma emitField_appends:
  "emitField pg w fld opt prefix = prepend w (emitField pg [] fld opt prefix)"
  by (simp add: emitField_def writefmt_def prepend_def Let_def split: sum.splits)

lemma class_field_action_appends:
  "class_field_action fld opt (w, pg) = prepend w (class_field_action fld opt ([], pg))"
  using emitField_appends[of pg w fld opt] by (simp add: class_field_action_def)

lemma constructor_action_appends:
  "constructor_action fld opt (w, pg) = prepend w (constructor_action fld opt ([], pg))"
  by (simp add: constructor_action_step prepend_simps)

lemma struct_field_action_appends:
  "struct_field_action fld opt (w, pg) = prepend w (struct_field_action fld opt ([], pg))"
  using emitField_appends[of pg w fld opt]
  by (simp add: struct_field_action_def prepend_simps)


lemma emitResourceClass_appends:
  "emitResourceClass pg w res = prepend w (emitResourceClass pg [] res)"
proof -
  let ?h = "''export class '' @ tm_Name res @ '' extends coconut.Resource implements ''
              @ tm_Name res @ ''Args {'' @ NL"
  define F where "F = forEachField res (Some class_field_action) ([], pg)"
  have F: "forEachField res (Some class_field_action) (v, pg) = prepend_counted v F" for v
    unfolding F_def by (rule forEachField_appends[OF class_field_action_appends])
  show ?thesis
  proof (cases F)
    case (Inl e)
    then show ?thesis
      by (simp add: emitResourceClass_def Let_def F prepend_simps writefmt_def)
  next
    case (Inr r)
    obtain fn out2 pg2 where r: "r = (fn, (out2, pg2))" by (cases r) auto
    define G where "G = forEachField res (Some constructor_action) ([], pg2)"
    have G: "forEachField res (Some constructor_action) (v, pg2) = prepend_counted v G" for v
      unfolding G_def by (rule forEachField_appends[OF constructor_action_appends])
    show ?thesis
    proof (cases G)
      case Inl2: (Inl e)
      with Inr r show ?thesis
        by (simp add: emitResourceClass_def Let_def F G prepend_simps writefmt_def)
    next
      case Inr2: (Inr r2)
      obtain k out3 pg3 where r2: "r2 = (k, (out3, pg3))" by (cases r2) auto
      from Inr r Inr2 r2 show ?thesis
        by (simp add: emitResourceClass_def Let_def F G prepend_simps writefmt_def)
    qed
  qed
qed

lemma emitStructType_appends:
  "emitStructType sprintf0 pg w t name = prepend w (emitStructType sprintf0 pg [] t name)"
proof -
  define F where "F = forEachField t (Some struct_field_action) ([], pg)"
  have F: "forEachField t (Some struct_field_action) (v, pg) = prepend_counted v F" for v
    unfolding F_def by (rule forEachField_appends[OF struct_field_action_appends])
  show ?thesis
  proof (cases F)
    case (Inl e)
    then show ?thesis
      by (simp add: emitStructType_def Let_def F prepend_simps writefmt_def)
  next
    case (Inr r)
    obtain fn out2 pg2 where r: "r = (fn, (out2, pg2))" by (cases r) auto
    from Inr r show ?thesis
      by (simp add: emitStructType_def Let_def F prepend_simps writefmt_def)
  qed
qed

lemma EmitResource_appends:
  "EmitResource sprintf0 pg w res = prepend w (EmitResource sprintf0 pg [] res)"
proof (cases "emitResourceClass pg [] res")
  case (Inl e)
  then show ?thesis
    using emitResourceClass_appends[of pg w res]
    by (simp add: EmitResource_def prepend_simps)
next
  case (Inr r)
  obtain out1 pg1 where r: "r = (out1, pg1)" by (cases r)
  have c: "emitResourceClass pg w res = Inr (w @ out1, pg1)"
    using emitResourceClass_appends[of pg w res] Inr r by (simp add: prepend_simps)
  define S where "S = emitStructType sprintf0 pg1 [] res (tm_Name res @ ''Args'')"
  have S: "emitStructType sprintf0 pg1 v res (tm_Name res @ ''Args'') = prepend v S" for v
    unfolding S_def by (rule emitStructType_appends)
  show ?thesis
  proof (cases S)
    case Inl2: (Inl e)
    with Inr r c show ?thesis
      by (simp add: EmitResource_def S prepend_simps writefmt_def)
  next
    case Inr2: (Inr r2)
    obtain out2 pg2 where r2: "r2 = (out2, pg2)" by (cases r2)
    from Inr r c Inr2 r2 show ?thesis
      by (simp add: EmitResource_def S prepend_simps writefmt_def)
  qed
qed

lemma emit_member_appends:
  "emit_member sprintf0 pg w m = prepend w (emit_member sprintf0 pg [] m)"
proof (cases m)
  case (Alias n t)
  then show ?thesis
    by (simp add: EmitAlias_def writefmt_def prepend_def split: sum.splits)
next
  case (Const n t v)
  then show ?thesis
    by (simp add: EmitConst_def writefmt_def prepend_def split: sum.splits)
next
  case (Enum n vs)
  then show ?thesis
    by (simp add: EmitEnum_text prepend_def)
next
  case (Resource r)
  then show ?thesis
    using EmitResource_appends[of sprintf0 pg w r] by simp
next
  case (Struct t)
  then show ?thesis
    using emitStructType_appends[of sprintf0 pg w t "tm_Name t"] by (simp add: EmitStruct_def)
next
  case (OtherMember x)
  then show ?thesis
    by (simp add: contract_Failf_def prepend_simps)
qed

lemma separator_rule:
  "((\<not> isalias m \<and> \<not> isconst m) \<or> TypeOf m \<noteq> TypeOf p) = blank_line_between p m"
  by (auto simp: blank_line_between_def)

lemma members_loop_body:
  "members_loop sprintf0 pg w prev ms = prepend w (body_members sprintf0 pg prev ms)"
proof (induction ms arbitrary: pg w prev)
  case Nil
  show ?case by (simp add: prepend_simps)
next
  case (Cons m ms)
  let ?sep = "(case prev of None \<Rightarrow> [] | Some p \<Rightarrow> if blank_line_between p m then NL else [])"
  have w1: "(case prev of None \<Rightarrow> w
             | Some p \<Rightarrow> if (\<not> isalias m \<and> \<not> isconst m) \<or> TypeOf m \<noteq> TypeOf p
                          then writefmt w NL else w) = w @ ?sep"
    by (simp add: separator_rule writefmt_def split: option.splits)
  show ?case
  proof (cases "emit_member sprintf0 pg [] m")
    case (Inl e)
    then show ?thesis
      using emit_member_appends[of sprintf0 pg "w @ ?sep" m]
      by (simp add: w1 prepend_simps del: append_assoc)
  next
    case (Inr r)
    obtain own pg1 where r: "r = (own, pg1)" by (cases r)
    have own: "emit_member sprintf0 pg (w @ ?sep) m = Inr ((w @ ?sep) @ own, pg1)"
      using emit_member_appends[of sprintf0 pg "w @ ?sep" m] Inr r by (simp add: prepend_simps)
    have "members_loop sprintf0 pg w prev (m # ms) =
            members_loop sprintf0 pg1 ((w @ ?sep) @ own) (Some m) ms"
      by (simp add: w1 own del: append_assoc)
    also have "\<dots> = prepend ((w @ ?sep) @ own) (body_members sprintf0 pg1 (Some m) ms)"
      by (rule Cons.IH)
    also have "\<dots> = prepend w (body_members sprintf0 pg prev (m # ms))"
      using Inr r
      by (cases "body_members sprintf0 pg1 (Some m) ms") (auto simp: prepend_simps)
    finally show ?thesis .
  qed
qed

text \<open>
  C7. The file body is the members' own texts in order, with a blank line between two
  adjacent members unless both are of the same kind and that kind is alias or constant,
  and with one more line feed after the last member (each member's text ends its own
  last line, so this is the trailing blank line).
\<close>

theorem C7_body_grouping:
  "genFileBody sprintf0 pg members =
     (case body_members sprintf0 pg None members of
        Inl e \<Rightarrow> Inl e
      | Inr (out, pg') \<Rightarrow> Inr (out @ NL, pg'))"
  by (simp add: genFileBody_def members_loop_body prepend_def writefmt_def split: sum.splits)

theorem C7_body_grouping_witness:
  "genFileBody (\<lambda>s. s) ex_pg ex_members =
     Inr (''export let A: number = 1;'' @ NL
          @ ''export let B: number = 2;'' @ NL
          @ NL
          @ ''export type T = string;'' @ NL
          @ NL
          @ ''export let C: number = 3;'' @ NL
          @ NL, ex_pg)
   \<and> \<not> blank_line_between (ex_members ! 0) (ex_members ! 1)
   \<and> blank_line_between (ex_members ! 1) (ex_members ! 2)
   \<and> blank_line_between (ex_members ! 2) (ex_members ! 3)"
  using C7_body_grouping[of "\<lambda>s. s" ex_pg ex_members]
  by (simp add: ex_members_def blank_line_between_def EmitAlias_def EmitConst_def writefmt_def)

section \<open>The file assembler: properties\<close>

lemma last_index_loop_none:
  "(\<forall>k<i. s ! k \<noteq> c) \<Longrightarrow> last_index_loop s c i = - 1"
  by (induction i) simp_all

lemma last_index_loop_found:
  "k < i \<Longrightarrow> s ! k = c \<Longrightarrow> (\<forall>m. k < m \<and> m < i \<longrightarrow> s ! m \<noteq> c) \<Longrightarrow>
   last_index_loop s c i = int k"
proof (induction i)
  case 0
  then show ?case by simp
next
  case (Suc i)
  show ?case
  proof (cases "k = i")
    case True
    with Suc.prems show ?thesis by simp
  next
    case False
    with Suc.prems have "k < i" "s ! i \<noteq> c" by auto
    with Suc show ?thesis by simp
  qed
qed

lemma LastIndexByte_none: "c \<notin> set s \<Longrightarrow> LastIndexByte s c = - 1"
  unfolding LastIndexByte_def
  by (rule last_index_loop_none) (auto simp: in_set_conv_nth)

lemma LastIndexByte_last:
  assumes "c \<notin> set rest"
  shows "LastIndexByte (pre @ c # rest) c = int (length pre)"
  unfolding LastIndexByte_def
proof (rule last_index_loop_found)
  show "length pre < length (pre @ c # rest)" by simp
  show "(pre @ c # rest) ! length pre = c" by simp
  show "\<forall>m. length pre < m \<and> m < length (pre @ c # rest) \<longrightarrow> (pre @ c # rest) ! m \<noteq> c"
  proof (intro allI impI)
    fix m assume m: "length pre < m \<and> m < length (pre @ c # rest)"
    then have "(pre @ c # rest) ! m = rest ! (m - length pre - 1)"
      by (simp add: nth_append nth_Cons')
    moreover from m have "m - length pre - 1 < length rest" by auto
    ultimately show "(pre @ c # rest) ! m \<noteq> c"
      using assms by (metis nth_mem)
  qed
qed

lemma output_path_no_dot: "CHR ''.'' \<notin> set file \<Longrightarrow> output_path file = file @ ''.ts''"
  by (simp add: output_path_def LastIndexByte_none)

lemma output_path_last_dot:
  "CHR ''.'' \<notin> set rest \<Longrightarrow> output_path (pre @ ''.'' @ rest) = pre @ ''.ts''"
  by (simp add: output_path_def LastIndexByte_last)

lemma emitFileContents_path:
  "emitFileContents env pg file body = Inr (p, content) \<Longrightarrow> p = output_path file"
  by (auto simp: emitFileContents_def Let_def split: if_splits sum.splits)


lemma emitFileContents_sections:
  "emitFileContents env pg file body =
     (if \<not> can_open env (output_path file) then Inl (OsError (output_path file))
      else
        (case local_section env pg (output_path file)
                (banner @ (if Fhadres pg then coconut_import else [])) of
           Inl e \<Rightarrow> Inl e
         | Inr w \<Rightarrow>
             (case foreign_section env pg w of
                Inl e \<Rightarrow> Inl e
              | Inr w' \<Rightarrow>
                  if can_flush env (output_path file) then Inr (output_path file, w' @ body @ NL)
                  else Inl (OsError (output_path file)))))"
  by (simp add: emitFileContents_def Let_def writefmt_def coconut_import_def local_section_def
      foreign_section_def split: sum.splits)

lemma local_import_eq:
  "local_import pg file name =
     (case MemberFiles (Currpkg pg) name of
        None \<Rightarrow> Inl NilDereference
      | Some home \<Rightarrow>
          (case module_path pg file name of
             None \<Rightarrow> Inl AssertFailed
           | Some path \<Rightarrow> Inr (import_line name path)))"
  by (simp add: local_import_def module_path_def relative_module_def module_form_def import_line_def
      Let_def split: option.splits)

lemma local_import_Inr:
  "local_import pg file name = Inr line \<Longrightarrow>
   \<exists>path. module_path pg file name = Some path \<and> line = import_line name path"
  by (auto simp: local_import_eq split: option.splits)

lemma local_import_Inl:
  "local_import pg file name = Inl e \<Longrightarrow>
   module_path pg file name = None \<and> (e = NilDereference \<or> e = AssertFailed)"
  by (auto simp: local_import_eq module_path_def split: option.splits)

lemma local_imports_loop_Inr:
  "local_imports_loop pg file w ns = Inr w' \<Longrightarrow>
   \<exists>paths. map (module_path pg file) ns = map Some paths
     \<and> w' = w @ concat (map (\<lambda>(name, path). import_line name path) (zip ns paths))"
proof (induction ns arbitrary: w)
  case Nil
  then show ?case by simp
next
  case (Cons n ns)
  from Cons.prems obtain line where l: "local_import pg file n = Inr line"
    and r: "local_imports_loop pg file (w @ line) ns = Inr w'"
    by (auto simp: writefmt_def split: sum.splits)
  from local_import_Inr[OF l] obtain path where
    p: "module_path pg file n = Some path" "line = import_line n path" by blast
  from Cons.IH[OF r] obtain paths where
    ps: "map (module_path pg file) ns = map Some paths"
    "w' = (w @ line) @ concat (map (\<lambda>(name, path). import_line name path) (zip ns paths))"
    by blast
  have "map (module_path pg file) (n # ns) = map Some (path # paths)
     \<and> w' = w @ concat (map (\<lambda>(name, path). import_line name path) (zip (n # ns) (path # paths)))"
    using p ps by simp
  then show ?case by blast
qed

lemma local_imports_loop_Inl:
  "local_imports_loop pg file w ns = Inl e \<Longrightarrow> e = NilDereference \<or> e = AssertFailed"
proof (induction ns arbitrary: w)
  case Nil
  then show ?case by simp
next
  case (Cons n ns)
  show ?case
  proof (cases "local_import pg file n")
    case (Inl e')
    with Cons.prems local_import_Inl[OF Inl] show ?thesis by simp
  next
    case (Inr line)
    with Cons.prems Cons.IH[of "writefmt w line"] show ?thesis by simp
  qed
qed

lemma local_imports_loop_ok:
  "\<forall>n\<in>set ns. module_path pg file n \<noteq> None \<Longrightarrow> \<exists>w'. local_imports_loop pg file w ns = Inr w'"
proof (induction ns arbitrary: w)
  case Nil
  show ?case by simp
next
  case (Cons n ns)
  then obtain path where p: "module_path pg file n = Some path" by auto
  then obtain home where "MemberFiles (Currpkg pg) n = Some home"
    by (auto simp: module_path_def split: option.splits)
  with p have "local_import pg file n = Inr (import_line n path)"
    by (simp add: local_import_eq)
  with Cons.IH[of "writefmt w (import_line n path)"] Cons.prems show ?case by simp
qed

lemma foreign_imports_loop_fails:
  "ks \<noteq> [] \<Longrightarrow>
   foreign_imports_loop ffimp w ks =
     Inl (not_supported (hd ks) (case map_of ffimp (hd ks) of Some pkg \<Rightarrow> pkg | None \<Rightarrow> []))"
  by (cases ks) (simp_all add: contract_Failf_def not_supported_def)


lemma foreign_section_fails:
  assumes "Ffimp pg \<noteq> []"
    and "set (map_order env (map fst (Ffimp pg))) = set (map fst (Ffimp pg))"
  shows "\<exists>impname pkg. (impname, pkg) \<in> set (Ffimp pg)
           \<and> foreign_section env pg w = Inl (not_supported impname pkg)"
proof -
  let ?ks = "map_order env (map fst (Ffimp pg))"
  from assms have ne: "?ks \<noteq> []" by (cases "Ffimp pg") auto
  then have "hd ?ks \<in> set (map fst (Ffimp pg))"
    using assms(2) hd_in_set[OF ne] by simp
  then obtain pkg where pkg: "map_of (Ffimp pg) (hd ?ks) = Some pkg"
    by (metis list.set_map map_of_eq_None_iff not_None_eq)
  then have "(hd ?ks, pkg) \<in> set (Ffimp pg)" by (rule map_of_SomeD)
  moreover have "foreign_section env pg w = Inl (not_supported (hd ?ks) pkg)"
    using assms(1) pkg by (simp add: foreign_section_def foreign_imports_loop_fails[OF ne])
  ultimately show ?thesis by blast
qed

lemma local_section_Inl:
  "local_section env pg file w = Inl e \<Longrightarrow> e = NilDereference \<or> e = AssertFailed"
  using local_imports_loop_Inl[of pg "file" w "map_order env (map fst (Flimp pg))" e]
  by (auto simp: local_section_def split: if_splits sum.splits)

lemma local_section_ok:
  assumes "\<forall>n\<in>set (map_order env (map fst (Flimp pg))). module_path pg file n \<noteq> None"
  shows "\<exists>w'. local_section env pg file w = Inr w'"
  using local_imports_loop_ok[OF assms, of w]
  by (auto simp: local_section_def)

text \<open>
  C9. Provided the runtime ranges over the recorded foreign imports themselves: when a
  foreign reference has been recorded, the assembler never returns a file; and when
  the file can be opened and the local imports resolve, it stops with the failure
  "Foreign imports not yet supported" for one of the recorded entries. When none has
  been recorded, the assembler never stops with that failure, and it returns the file
  when the file can be opened and written and the local imports resolve.
\<close>

theorem C9_foreign_imports:
  assumes order: "set (map_order env (map fst (Ffimp pg))) = set (map fst (Ffimp pg))"
  shows "(Ffimp pg \<noteq> [] \<longrightarrow> isl (emitFileContents env pg file body))
     \<and> (Ffimp pg \<noteq> [] \<and> can_open env (output_path file)
          \<and> (\<forall>n\<in>set (map_order env (map fst (Flimp pg))). module_path pg (output_path file) n \<noteq> None)
        \<longrightarrow> (\<exists>impname pkg. (impname, pkg) \<in> set (Ffimp pg)
               \<and> emitFileContents env pg file body = Inl (not_supported impname pkg)))
     \<and> (Ffimp pg = [] \<longrightarrow>
          (\<forall>args. emitFileContents env pg file body
                     \<noteq> Inl (Failf ''Foreign imports not yet supported: import=%v pkg=%v'' args)))
     \<and> (Ffimp pg = [] \<and> can_open env (output_path file) \<and> can_flush env (output_path file)
          \<and> (\<forall>n\<in>set (map_order env (map fst (Flimp pg))). module_path pg (output_path file) n \<noteq> None)
        \<longrightarrow> (\<exists>content. emitFileContents env pg file body = Inr (output_path file, content)))"
proof (intro conjI impI)
  let ?w = "banner @ (if Fhadres pg then coconut_import else [])"
  let ?f = "output_path file"
  show "isl (emitFileContents env pg file body)" if ne: "Ffimp pg \<noteq> []"
  proof (cases "can_open env ?f")
    case False
    then show ?thesis by (simp add: emitFileContents_sections)
  next
    case True
    show ?thesis
    proof (cases "local_section env pg ?f ?w")
      case (Inl e)
      with True show ?thesis by (simp add: emitFileContents_sections)
    next
      case (Inr w)
      from foreign_section_fails[OF ne order, of w] obtain impname pkg where
        "foreign_section env pg w = Inl (not_supported impname pkg)" by blast
      with True Inr show ?thesis by (simp add: emitFileContents_sections)
    qed
  qed
  show "\<exists>impname pkg. (impname, pkg) \<in> set (Ffimp pg)
               \<and> emitFileContents env pg file body = Inl (not_supported impname pkg)"
    if h: "Ffimp pg \<noteq> [] \<and> can_open env ?f
          \<and> (\<forall>n\<in>set (map_order env (map fst (Flimp pg))). module_path pg ?f n \<noteq> None)"
  proof -
    from h local_section_ok[of env pg ?f ?w] obtain w where
      w: "local_section env pg ?f ?w = Inr w" by blast
    from h foreign_section_fails[OF _ order, of w] obtain impname pkg where
      "(impname, pkg) \<in> set (Ffimp pg)" "foreign_section env pg w = Inl (not_supported impname pkg)"
      by blast
    with h w show ?thesis by (auto simp: emitFileContents_sections)
  qed
  show "\<forall>args. emitFileContents env pg file body
                     \<noteq> Inl (Failf ''Foreign imports not yet supported: import=%v pkg=%v'' args)"
    if e: "Ffimp pg = []"
  proof
    fix args
    show "emitFileContents env pg file body
            \<noteq> Inl (Failf ''Foreign imports not yet supported: import=%v pkg=%v'' args)"
    proof (cases "local_section env pg ?f ?w")
      case (Inl e')
      with local_section_Inl[OF Inl] show ?thesis
        by (auto simp: emitFileContents_sections)
    next
      case (Inr w)
      with e show ?thesis
        by (simp add: emitFileContents_sections foreign_section_def)
    qed
  qed
  show "\<exists>content. emitFileContents env pg file body = Inr (output_path file, content)"
    if h: "Ffimp pg = [] \<and> can_open env ?f \<and> can_flush env ?f
          \<and> (\<forall>n\<in>set (map_order env (map fst (Flimp pg))). module_path pg ?f n \<noteq> None)"
  proof -
    from h local_section_ok[of env pg ?f ?w] obtain w where
      w: "local_section env pg ?f ?w = Inr w" by blast
    with h show ?thesis
      by (simp add: emitFileContents_sections foreign_section_def)
  qed
qed

lemma ex_foreign_run:
  "emitFileContents ex_env ex_pg_foreign ''out/a/x.go'' [] = Inl (not_supported ''other/lib'' ''lib'')"
  by (simp add: emitFileContents_sections ex_env_def ex_pg_foreign_def ex_pg_def output_path_def
      LastIndexByte_def local_section_def foreign_section_def contract_Failf_def not_supported_def)

lemma ex_plain_run:
  "emitFileContents ex_env ex_pg ''out/a/x.go'' [] = Inr (''out/a/x.ts'', banner @ NL)"
  by (simp add: emitFileContents_sections ex_env_def ex_pg_def output_path_def
      LastIndexByte_def local_section_def foreign_section_def)

theorem C9_foreign_imports_witness:
  "set (map_order ex_env (map fst (Ffimp ex_pg_foreign))) = set (map fst (Ffimp ex_pg_foreign))
   \<and> Ffimp ex_pg_foreign \<noteq> []
   \<and> isl (emitFileContents ex_env ex_pg_foreign ''out/a/x.go'' [])
   \<and> emitFileContents ex_env ex_pg_foreign ''out/a/x.go'' [] = Inl (not_supported ''other/lib'' ''lib'')
   \<and> Ffimp ex_pg = []
   \<and> emitFileContents ex_env ex_pg ''out/a/x.go'' [] = Inr (''out/a/x.ts'', banner @ NL)"
proof -
  have o: "set (map_order ex_env (map fst (Ffimp ex_pg_foreign))) = set (map fst (Ffimp ex_pg_foreign))"
    by (simp add: ex_env_def)
  have ne: "Ffimp ex_pg_foreign \<noteq> []"
    by (simp add: ex_pg_foreign_def)
  from C9_foreign_imports[OF o, of "''out/a/x.go''" "[]"] ne
  have "isl (emitFileContents ex_env ex_pg_foreign ''out/a/x.go'' [])" by blast
  moreover have "Ffimp ex_pg = []" by (simp add: ex_pg_def)
  ultimately show ?thesis
    using o ne ex_foreign_run ex_plain_run by simp
qed


lemma local_section_Inr:
  assumes "local_section env pg p w = Inr w'"
    and order: "mset (map_order env (map fst (Flimp pg))) = mset (map fst (Flimp pg))"
  shows "\<exists>paths. map (module_path pg p) (map_order env (map fst (Flimp pg))) = map Some paths
     \<and> w' = w @ concat (map (\<lambda>(name, path). import_line name path)
                          (zip (map_order env (map fst (Flimp pg))) paths))
              @ (if Flimp pg = [] then [] else NL)"
proof (cases "Flimp pg = []")
  case False
  with assms obtain w2 where
    "local_imports_loop pg p w (map_order env (map fst (Flimp pg))) = Inr w2" "w' = w2 @ NL"
    by (auto simp: local_section_def split: sum.splits)
  with local_imports_loop_Inr[OF this(1)] False show ?thesis by auto
next
  case True
  with order have "map_order env (map fst (Flimp pg)) = []" by simp
  moreover from True assms have "w' = w" by (simp add: local_section_def)
  ultimately show ?thesis using True by simp
qed

text \<open>
  C8, as the code has it. Provided the runtime ranges over each map in some order of
  its keys: when the assembler returns a file, no foreign import was recorded, and the
  content is the banner, the base-library import if a resource was emitted, then one
  import line for each key of the local import map (each key once), then a blank line
  if there was any, then the body. The import line of a name is
  \<open>import {Name} from "path";\<close> where the path is the relative path from the directory
  of the output file to the home file of the member under the output root (not to its
  directory), prefixed with \<^verbatim>\<open>./\<close> unless it starts with a dot, and stripped of the
  extension of its last element.
\<close>

theorem C8_local_imports:
  assumes run: "emitFileContents env pg file body = Inr (p, content)"
    and keys: "distinct (map fst (Flimp pg))"
    and order: "mset (map_order env (map fst (Flimp pg))) = mset (map fst (Flimp pg))"
    and forder: "mset (map_order env (map fst (Ffimp pg))) = mset (map fst (Ffimp pg))"
  shows "\<exists>paths.
       map (module_path pg p) (map_order env (map fst (Flimp pg))) = map Some paths
     \<and> content = banner @ (if Fhadres pg then coconut_import else [])
                   @ concat (map (\<lambda>(name, path). import_line name path)
                               (zip (map_order env (map fst (Flimp pg))) paths))
                   @ (if Flimp pg = [] then [] else NL)
                   @ body @ NL
     \<and> distinct (map_order env (map fst (Flimp pg)))
     \<and> set (map_order env (map fst (Flimp pg))) = fst ` set (Flimp pg)
     \<and> Ffimp pg = []"
proof -
  let ?w = "banner @ (if Fhadres pg then coconut_import else [])"
  have p: "p = output_path file" using run by (rule emitFileContents_path)
  have fset: "set (map_order env (map fst (Ffimp pg))) = set (map fst (Ffimp pg))"
    using forder by (rule mset_eq_setD)
  have nof: "Ffimp pg = []"
  proof (rule ccontr)
    assume "Ffimp pg \<noteq> []"
    have "isl (emitFileContents env pg file body)"
    proof (cases "can_open env (output_path file)")
      case False
      then show ?thesis by (simp add: emitFileContents_sections)
    next
      case True
      show ?thesis
      proof (cases "local_section env pg (output_path file) ?w")
        case (Inl e)
        with True show ?thesis by (simp add: emitFileContents_sections)
      next
        case (Inr w)
        from foreign_section_fails[OF \<open>Ffimp pg \<noteq> []\<close> fset, of w] obtain impname pkg where
          "foreign_section env pg w = Inl (not_supported impname pkg)" by blast
        with True Inr show ?thesis by (simp add: emitFileContents_sections)
      qed
    qed
    with run show False by simp
  qed
  have "\<exists>w. local_section env pg p ?w = Inr w \<and> content = w @ body @ NL"
  proof (cases "local_section env pg p ?w")
    case (Inl e)
    with run show ?thesis
      by (simp add: emitFileContents_sections p split: if_splits)
  next
    case (Inr w)
    have "foreign_section env pg w = Inr w"
      using nof by (simp add: foreign_section_def)
    with run Inr show ?thesis
      by (simp add: emitFileContents_sections p split: if_splits)
  qed
  then obtain w where
    w: "local_section env pg p ?w = Inr w" and c: "content = w @ body @ NL"
    by blast
  from local_section_Inr[OF w order] obtain paths where
    "map (module_path pg p) (map_order env (map fst (Flimp pg))) = map Some paths"
    "w = ?w @ concat (map (\<lambda>(name, path). import_line name path)
                          (zip (map_order env (map fst (Flimp pg))) paths))
              @ (if Flimp pg = [] then [] else NL)"
    by blast
  moreover have "distinct (map_order env (map fst (Flimp pg)))"
    using mset_eq_imp_distinct_iff[OF order] keys by simp
  moreover have "set (map_order env (map fst (Flimp pg))) = fst ` set (Flimp pg)"
    using mset_eq_setD[OF order] by simp
  ultimately show ?thesis using c nof by simp
qed

lemma ex_paths:
  "Dir ''out/a/x.ts'' = ''out/a''"
  "Clean ''out/b/y.go'' = ''out/b/y.go''"
  "Dir ''out/b/y.go'' = ''out/b''"
  by (simp_all add: Dir_def Clean_def IsPathSeparator_def Let_def backtrack.simps)

lemma ex_rels:
  "Rel ''out/a'' ''out/b/y.go'' = Some ''../b/y.go''"
  "Rel ''out/a'' ''out/b'' = Some ''../b''"
  by (simp_all add: Rel_def Clean_def IsPathSeparator_def Let_def backtrack.simps rel_loop.simps)

lemma ex_forms:
  "module_form ''../b/y.go'' = ''../b/y''"
  "module_form ''../b'' = ''../b''"
  by (simp_all add: module_form_def HasPrefix_def Ext_def IsPathSeparator_def LastIndexByte_def Let_def)

lemma ex_module_path: "module_path ex_pg_local ''out/a/x.ts'' ''Y'' = Some ''../b/y''"
  by (simp add: module_path_def relative_module_def ex_pg_local_def ex_pg_def ex_paths ex_rels ex_forms)

lemma ex_output_path: "output_path ''out/a/x.go'' = ''out/a/x.ts''"
  by (simp add: output_path_def LastIndexByte_def)

lemma ex_local_import:
  "local_import ex_pg_local ''out/a/x.ts'' ''Y'' = Inr (import_line ''Y'' ''../b/y'')"
  using ex_module_path
  by (simp add: local_import_eq ex_pg_local_def ex_pg_def)

lemma ex_local_run:
  "emitFileContents ex_env ex_pg_local ''out/a/x.go'' [] =
     Inr (''out/a/x.ts'', banner @ ''import {Y} from '' @ DQ @ ''../b/y'' @ DQ @ '';'' @ NL @ NL @ NL)"
proof -
  have k: "Flimp ex_pg_local = [(''Y'', True)]"
    by (simp add: ex_pg_local_def)
  have o: "map_order ex_env ks = ks" for ks
    by (simp add: ex_env_def)
  have l: "local_section ex_env ex_pg_local ''out/a/x.ts'' banner = Inr (banner @ import_line ''Y'' ''../b/y'' @ NL)"
    by (simp add: local_section_def k o ex_local_import writefmt_def)
  have f: "foreign_section ex_env ex_pg_local w = Inr w" for w
    by (simp add: foreign_section_def ex_pg_local_def ex_pg_def)
  have h: "Fhadres ex_pg_local = False"
    by (simp add: ex_pg_local_def ex_pg_def)
  have e: "can_open ex_env p" "can_flush ex_env p" for p
    by (simp_all add: ex_env_def)
  show ?thesis
    by (simp add: emitFileContents_sections ex_output_path l f h e import_line_def)
qed

theorem C8_local_imports_witness:
  "emitFileContents ex_env ex_pg_local ''out/a/x.go'' [] =
     Inr (''out/a/x.ts'', banner @ ''import {Y} from '' @ DQ @ ''../b/y'' @ DQ @ '';'' @ NL @ NL @ NL)
   \<and> distinct (map fst (Flimp ex_pg_local))
   \<and> mset (map_order ex_env (map fst (Flimp ex_pg_local))) = mset (map fst (Flimp ex_pg_local))
   \<and> mset (map_order ex_env (map fst (Ffimp ex_pg_local))) = mset (map fst (Ffimp ex_pg_local))
   \<and> map (module_path ex_pg_local ''out/a/x.ts'') (map_order ex_env (map fst (Flimp ex_pg_local)))
       = [Some ''../b/y'']
   \<and> Ffimp ex_pg_local = []"
proof -
  have k: "distinct (map fst (Flimp ex_pg_local))"
    by (simp add: ex_pg_local_def)
  have o: "mset (map_order ex_env (map fst (Flimp ex_pg_local))) = mset (map fst (Flimp ex_pg_local))"
    by (simp add: ex_env_def)
  have f: "mset (map_order ex_env (map fst (Ffimp ex_pg_local))) = mset (map fst (Ffimp ex_pg_local))"
    by (simp add: ex_env_def)
  from C8_local_imports[OF ex_local_run k o f] have "Ffimp ex_pg_local = []" by blast
  moreover have "map (module_path ex_pg_local ''out/a/x.ts'') (map_order ex_env (map fst (Flimp ex_pg_local)))
       = [Some ''../b/y'']"
    using ex_module_path by (simp add: ex_env_def ex_pg_local_def)
  ultimately show ?thesis using ex_local_run k o f by simp
qed

text \<open>
  The claim C8 as stated fails: for the member \<open>Y\<close> with home file \<open>b/y.go\<close>, imported
  from the output file \<open>out/a/x.ts\<close>, the import line has the path to the home file,
  \<open>../b/y\<close>; the path to the directory of the home file, as the claim has it, would be
  \<open>../b\<close>.
\<close>

theorem C8_module_path_counterexample:
  "emitFileContents ex_env ex_pg_local ''out/a/x.go'' [] =
     Inr (''out/a/x.ts'', banner @ ''import {Y} from '' @ DQ @ ''../b/y'' @ DQ @ '';'' @ NL @ NL @ NL)
   \<and> claimed_module_path ex_pg_local ''out/a/x.ts'' ''Y'' = Some ''../b''
   \<and> emitFileContents ex_env ex_pg_local ''out/a/x.go'' [] \<noteq>
       Inr (''out/a/x.ts'', banner @ ''import {Y} from '' @ DQ @ ''../b'' @ DQ @ '';'' @ NL @ NL @ NL)"
proof -
  have "claimed_module_path ex_pg_local ''out/a/x.ts'' ''Y'' = Some ''../b''"
    by (simp add: claimed_module_path_def relative_module_def ex_pg_local_def ex_pg_def
        ex_paths ex_rels ex_forms)
  then show ?thesis by (simp add: ex_local_run)
qed

text \<open>
  C10. The output path is the input path cut at its last dot, wherever in the path
  that dot is, with \<^verbatim>\<open>.ts\<close> appended; a path without a dot only gets \<^verbatim>\<open>.ts\<close> appended.
  (So when the last dot is in a directory name, the rest of the path from that dot on,
  slashes included, is lost.) This is the path of the file the assembler writes.
\<close>

theorem C10_output_path:
  "(CHR ''.'' \<notin> set file \<longrightarrow> output_path file = file @ ''.ts'')
   \<and> (CHR ''.'' \<notin> set rest \<longrightarrow> output_path (pre @ ''.'' @ rest) = pre @ ''.ts'')
   \<and> (emitFileContents env pg path body = Inr (p, content) \<longrightarrow> p = output_path path)"
proof (intro conjI impI)
  show "output_path file = file @ ''.ts''" if "CHR ''.'' \<notin> set file"
    using that by (rule output_path_no_dot)
  show "output_path (pre @ ''.'' @ rest) = pre @ ''.ts''" if "CHR ''.'' \<notin> set rest"
    using that by (rule output_path_last_dot)
  show "p = output_path path" if "emitFileContents env pg path body = Inr (p, content)"
    using that by (rule emitFileContents_path)
qed

theorem C10_output_path_witness:
  "CHR ''.'' \<notin> set ''out/types'' \<and> output_path ''out/types'' = ''out/types.ts''
   \<and> CHR ''.'' \<notin> set ''2/types'' \<and> output_path ''out/v1.2/types'' = ''out/v1.ts''
   \<and> emitFileContents ex_env ex_pg ''out/v1.2/types'' [] = Inr (''out/v1.ts'', banner @ NL)"
proof -
  have run: "emitFileContents ex_env ex_pg ''out/v1.2/types'' [] = Inr (''out/v1.ts'', banner @ NL)"
    by (simp add: emitFileContents_sections ex_env_def ex_pg_def output_path_def
        LastIndexByte_def local_section_def foreign_section_def)
  have a: "CHR ''.'' \<notin> set ''out/types''" and b: "CHR ''.'' \<notin> set ''2/types''"
    by simp_all
  from C10_output_path[of "''out/types''" "''2/types''" "''out/v1''" ex_env ex_pg
      "''out/v1.2/types''" "[]" "''out/v1.ts''" "banner @ NL"]
  have "output_path ''out/types'' = ''out/types'' @ ''.ts''"
    and "output_path (''out/v1'' @ ''.'' @ ''2/types'') = ''out/v1'' @ ''.ts''"
    using a b by blast+
  then show ?thesis using a b run by simp
qed

subsection \<open>From the members to the file\<close>

text \<open>
  Two runs of \<^verbatim>\<open>EmitFile\<close> from end to end: an alias of a member declared in another
  file gives the import line and the declaration; an alias of a type that also refers
  to a foreign package stops with the failure for that package.
\<close>

lemma ex_module_path_any:
  assumes "Currpkg pg = Currpkg ex_pg" and "OutRoot pg = OutRoot ex_pg"
  shows "local_import pg ''out/a/x.ts'' ''Y'' = Inr (import_line ''Y'' ''../b/y'')"
proof -
  have "module_path pg ''out/a/x.ts'' ''Y'' = Some ''../b/y''"
    using assms
    by (simp add: module_path_def relative_module_def ex_pg_def ex_paths ex_rels ex_forms)
  moreover have "MemberFiles (Currpkg pg) ''Y'' = Some ''b/y.go''"
    using assms by (simp add: ex_pg_def)
  ultimately show ?thesis
    by (simp add: local_import_eq)
qed

lemma EmitFile_local_example:
  "EmitFile ex_env (\<lambda>s. s) ex_pg ''out/a/x.go'' [Alias ''T'' (TNamed (Some ex_pkg) ''Y'' (TBasic String))] =
     Inr (''out/a/x.ts'',
          banner @ ''import {Y} from '' @ DQ @ ''../b/y'' @ DQ @ '';'' @ NL @ NL
          @ ''export type T = Y;'' @ NL @ NL @ NL)"
proof -
  let ?pg = "ex_pg\<lparr>Flimp := [(''Y'', True)]\<rparr>"
  have reset: "ex_pg\<lparr>Fhadres := False, Ffimp := [], Flimp := []\<rparr> = ex_pg"
    by (simp add: ex_pg_def)
  have body: "genFileBody (\<lambda>s. s) ex_pg [Alias ''T'' (TNamed (Some ex_pkg) ''Y'' (TBasic String))] =
      Inr (''export type T = Y;'' @ NL @ NL, ?pg)"
    by (simp add: genFileBody_def EmitAlias_def writefmt_def ex_pg_def same_package_def)
  have l: "local_import ?pg ''out/a/x.ts'' ''Y'' = Inr (import_line ''Y'' ''../b/y'')"
    by (rule ex_module_path_any) simp_all
  have e: "can_open ex_env p" "can_flush ex_env p" "map_order ex_env ks = ks" for p ks
    by (simp_all add: ex_env_def)
  have f: "Fhadres ?pg = False" "Ffimp ?pg = []"
    by (simp_all add: ex_pg_def)
  have "emitFileContents ex_env ?pg ''out/a/x.go'' (''export type T = Y;'' @ NL @ NL) =
     Inr (''out/a/x.ts'',
          banner @ ''import {Y} from '' @ DQ @ ''../b/y'' @ DQ @ '';'' @ NL @ NL
          @ ''export type T = Y;'' @ NL @ NL @ NL)"
    by (simp add: emitFileContents_sections ex_output_path local_section_def foreign_section_def
        e f l writefmt_def import_line_def)
  then show ?thesis
    by (simp add: EmitFile_def reset body)
qed

lemma EmitFile_foreign_example:
  "EmitFile ex_env (\<lambda>s. s) ex_pg ''out/a/x.go'' [Alias ''T'' ex_type] =
     Inl (not_supported ''other/lib'' ''lib'')"
proof -
  have reset: "ex_pg\<lparr>Fhadres := False, Ffimp := [], Flimp := []\<rparr> = ex_pg"
    by (simp add: ex_pg_def)
  have ty: "GenTypeName ex_pg ex_type = Inr (''{[key: Y]: lib.Z[]}'', ex_pg_after)"
    by (simp add: ex_type_def ex_pg_def ex_pg_after_def ex_pkg_def ex_foreign_def
        same_package_def registerForeign_def)
  have body: "genFileBody (\<lambda>s. s) ex_pg [Alias ''T'' ex_type] =
      Inr (''export type T = {[key: Y]: lib.Z[]};'' @ NL @ NL, ex_pg_after)"
    by (simp add: genFileBody_def EmitAlias_def writefmt_def ty)
  have l: "local_import ex_pg_after ''out/a/x.ts'' ''Y'' = Inr (import_line ''Y'' ''../b/y'')"
    by (rule ex_module_path_any) (simp_all add: ex_pg_after_def)
  have e: "can_open ex_env p" "can_flush ex_env p" "map_order ex_env ks = ks" for p ks
    by (simp_all add: ex_env_def)
  have f: "Fhadres ex_pg_after = False" "Ffimp ex_pg_after = [(''other/lib'', ''lib'')]"
    "Flimp ex_pg_after = [(''Y'', True)]"
    by (simp_all add: ex_pg_after_def ex_pg_def)
  have "emitFileContents ex_env ex_pg_after ''out/a/x.go'' (''export type T = {[key: Y]: lib.Z[]};'' @ NL @ NL) =
     Inl (not_supported ''other/lib'' ''lib'')"
    by (simp add: emitFileContents_sections ex_output_path local_section_def foreign_section_def
        e f l writefmt_def contract_Failf_def not_supported_def)
  then show ?thesis
    by (simp add: EmitFile_def reset body)
qed

end
